theory Spec2Isabelle
  imports Complex_Main "HOL-Library.AList"
begin

section \<open>Errors, Python indexing and tensors\<close>

text \<open>
  Every exception the analysed code can raise is a value of \<open>py_error\<close>; a
  computation that may raise returns \<open>py_error + 'a\<close> with \<open>Inl\<close> for the
  exception. \<open>bind\<close> sequences two such computations: the first exception
  aborts the rest, as in Python.
\<close>

datatype py_error = IndexError | KeyError | RuntimeError | ValueError

definition bind :: "py_error + 'a \<Rightarrow> ('a \<Rightarrow> py_error + 'b) \<Rightarrow> py_error + 'b" where
  "bind r f = (case r of Inl e \<Rightarrow> Inl e | Inr x \<Rightarrow> f x)"

text \<open>
  \<open>xs[i]\<close> for a Python list, a numpy array or a torch tensor along one
  axis: an index in \<open>[-n, n)\<close> is accepted, a negative one counts from the
  end, anything else raises \<open>IndexError\<close>.
\<close>

definition py_index :: "'a list \<Rightarrow> int \<Rightarrow> py_error + 'a" where
  "py_index xs i =
     (if 0 \<le> i \<and> i < int (length xs) then Inr (xs ! nat i)
      else if i < 0 \<and> - int (length xs) \<le> i then Inr (xs ! nat (int (length xs) + i))
      else Inl IndexError)"

text \<open>
  Token sequences are lists of token ids. A tensor of shape
  \<open>[batch, position, dim]\<close> (residual stream, logits) is a list of lists of
  lists; its scalars are idealised as real numbers.
\<close>

type_synonym tokens = "int list"
type_synonym tensor3 = "real list list list"

section \<open>The baseline metric\<close>

text \<open>
  \<^verbatim>\<open>
  def logits_to_logit_diff(clean_tokens, corrupted_tokens, logits, comparison_index):
      correct_index = clean_tokens[comparison_index]
      incorrect_index = corrupted_tokens[comparison_index]
      return logits[0, comparison_index-1, correct_index]
             - logits[0, comparison_index-1, incorrect_index]
  \<close>
\<close>

definition index3 :: "tensor3 \<Rightarrow> int \<Rightarrow> int \<Rightarrow> int \<Rightarrow> py_error + real" where
  "index3 t b p v =
     bind (py_index t b) (\<lambda>tb. bind (py_index tb p) (\<lambda>row. py_index row v))"

definition logits_to_logit_diff :: "tokens \<Rightarrow> tokens \<Rightarrow> tensor3 \<Rightarrow> int \<Rightarrow> py_error + real" where
  "logits_to_logit_diff clean_tokens corrupted_tokens logits comparison_index =
     bind (py_index clean_tokens comparison_index) (\<lambda>correct_index.
     bind (py_index corrupted_tokens comparison_index) (\<lambda>incorrect_index.
     bind (index3 logits 0 (comparison_index - 1) correct_index) (\<lambda>a.
     bind (index3 logits 0 (comparison_index - 1) incorrect_index) (\<lambda>b.
     Inr (a - b)))))"

section \<open>The model interface\<close>

text \<open>
  Probe points. The library call \<^verbatim>\<open>get_act_name("resid_pre", L)\<close> names the
  residual stream entering block \<open>L\<close> (\<^verbatim>\<open>blocks.L.hook_resid_pre\<close>),
  \<^verbatim>\<open>get_act_name("normalized", L, "ln1")\<close> the normalised input of block
  \<open>L\<close> (\<^verbatim>\<open>blocks.L.ln1.hook_normalized\<close>), and the literal
  \<^verbatim>\<open>ln_final.hook_normalized\<close> the final normalised output. A name is
  modelled by its components, so that different layers have different names.
\<close>

datatype hook_name = Resid_pre nat | Normalized_ln1 nat | Ln_final_normalized

definition get_act_name_resid_pre :: "nat \<Rightarrow> hook_name" where
  "get_act_name_resid_pre layer = Resid_pre layer"

definition get_act_name_normalized_ln1 :: "nat \<Rightarrow> hook_name" where
  "get_act_name_normalized_ln1 layer = Normalized_ln1 layer"

type_synonym cache = "hook_name \<rightharpoonup> tensor3"
type_synonym hook_fn = "tensor3 \<Rightarrow> hook_name \<Rightarrow> py_error + tensor3"

text \<open>
  Modelled from the spec: the Model Interface (the transformer library is not part
  of the repository). The model is a deterministic layered forward pass: \<open>embed\<close>
  turns a token sequence into the residual stream entering block 0 (batch size 1),
  \<open>block l\<close> maps the residual stream entering block \<open>l\<close> to the one leaving
  it, \<open>unembed\<close> maps the last residual stream to logits. \<open>W_U\<close> is the
  output-unembedding matrix (hidden-dim rows, vocabulary-dim columns).
\<close>

record model =
  n_layers :: nat
  embed :: "tokens \<Rightarrow> tensor3"
  block :: "nat \<Rightarrow> tensor3 \<Rightarrow> tensor3"
  unembed :: "tensor3 \<Rightarrow> tensor3"
  W_U :: "real list list"

text \<open>
  Modelled from the spec: the residual stream after running the blocks \<open>ls\<close> in
  order, no hook attached.
\<close>

definition run_blocks :: "model \<Rightarrow> nat list \<Rightarrow> tensor3 \<Rightarrow> tensor3" where
  "run_blocks m ls x = foldl (\<lambda>r l. block m l r) x ls"

text \<open>Modelled from the spec: \<^verbatim>\<open>model(tokens)\<close>, the plain forward pass.\<close>

definition forward :: "model \<Rightarrow> tokens \<Rightarrow> tensor3" where
  "forward m toks = unembed m (run_blocks m [0..<n_layers m] (embed m toks))"

text \<open>
  Modelled from the spec: the residual stream entering block \<open>l\<close> in the plain
  forward pass.
\<close>

definition resid_pre_at :: "model \<Rightarrow> tokens \<Rightarrow> nat \<Rightarrow> tensor3" where
  "resid_pre_at m toks l = run_blocks m [0..<l] (embed m toks)"

text \<open>
  Modelled from the spec: \<^verbatim>\<open>model.run_with_cache(tokens)\<close>, the logits of the
  plain forward pass and a snapshot of the activations. Of the snapshot only the
  residual-pre entries, the ones the patching engine reads, are modelled.
\<close>

definition run_with_cache :: "model \<Rightarrow> tokens \<Rightarrow> tensor3 \<times> cache" where
  "run_with_cache m toks =
     (forward m toks,
      (\<lambda>nm. case nm of
          Resid_pre l \<Rightarrow> if l < n_layers m then Some (resid_pre_at m toks l) else None
        | _ \<Rightarrow> None))"

text \<open>
  Modelled from the spec: \<^verbatim>\<open>model.run_with_hooks(tokens, fwd_hooks=[(name, fn), ...])\<close>,
  the forward pass in which, at every residual-pre probe point, the hooks registered
  under that point's name are called in order with the live activation and the
  point's name, and the pass continues with what they return. An exception in a
  hook aborts the pass.
\<close>

fun apply_hooks :: "(hook_name \<times> hook_fn) list \<Rightarrow> hook_name \<Rightarrow> tensor3 \<Rightarrow> py_error + tensor3" where
  "apply_hooks [] nm x = Inr x"
| "apply_hooks ((n, f) # hs) nm x =
     (if n = nm then bind (f x nm) (apply_hooks hs nm) else apply_hooks hs nm x)"

fun run_layers :: "model \<Rightarrow> (hook_name \<times> hook_fn) list \<Rightarrow> nat list \<Rightarrow> tensor3 \<Rightarrow> py_error + tensor3" where
  "run_layers m hs [] x = Inr x"
| "run_layers m hs (l # ls) x =
     bind (apply_hooks hs (Resid_pre l) x) (\<lambda>x'. run_layers m hs ls (block m l x'))"

definition run_with_hooks :: "model \<Rightarrow> tokens \<Rightarrow> (hook_name \<times> hook_fn) list \<Rightarrow> py_error + tensor3" where
  "run_with_hooks m toks fwd_hooks =
     bind (run_layers m fwd_hooks [0..<n_layers m] (embed m toks)) (\<lambda>x. Inr (unembed m x))"

section \<open>The patching hook\<close>

text \<open>
  Slice reads and writes of a \<open>[batch, position, dim]\<close> tensor.
  \<open>select_position t p\<close> is \<^verbatim>\<open>t[:, p, :]\<close>; \<open>assign_position t p rows\<close> is
  \<^verbatim>\<open>t[:, p, :] = rows\<close>, where the right-hand side is broadcast to the shape
  of the slice (an axis of the same size, or of size 1) and anything else raises.
\<close>

definition broadcast_to :: "nat \<Rightarrow> 'a list \<Rightarrow> py_error + 'a list" where
  "broadcast_to n xs =
     (if length xs = n then Inr xs
      else if length xs = 1 then Inr (replicate n (xs ! 0))
      else Inl RuntimeError)"

definition select_position :: "tensor3 \<Rightarrow> nat \<Rightarrow> py_error + real list list" where
  "select_position t p =
     (if list_all (\<lambda>tb. p < length tb) t then Inr (map (\<lambda>tb. tb ! p) t) else Inl IndexError)"

fun assign_rows :: "tensor3 \<Rightarrow> nat \<Rightarrow> real list list \<Rightarrow> py_error + tensor3" where
  "assign_rows [] p [] = Inr []"
| "assign_rows (tb # t) p (r # rs) =
     bind (broadcast_to (length (tb ! p)) r) (\<lambda>r'.
     bind (assign_rows t p rs) (\<lambda>t'. Inr (tb[p := r'] # t')))"
| "assign_rows t p rs = Inl RuntimeError"

definition assign_position :: "tensor3 \<Rightarrow> nat \<Rightarrow> real list list \<Rightarrow> py_error + tensor3" where
  "assign_position t p rows =
     (if list_all (\<lambda>tb. p < length tb) t
      then bind (broadcast_to (length t) rows) (assign_rows t p)
      else Inl IndexError)"

text \<open>
  \<^verbatim>\<open>
  def residual_stream_patching_hook(resid_pre, hook, position):
      clean_resid_pre = clean_cache[hook.name]
      resid_pre[:, position, :] = clean_resid_pre[:, position, :]
      return resid_pre
  \<close>
  The clean cache is the closure's captured variable; here it is the first argument.
\<close>

definition residual_stream_patching_hook :: "cache \<Rightarrow> tensor3 \<Rightarrow> hook_name \<Rightarrow> nat \<Rightarrow> py_error + tensor3" where
  "residual_stream_patching_hook clean_cache resid_pre hook position =
     (case clean_cache hook of
        None \<Rightarrow> Inl KeyError
      | Some clean_resid_pre \<Rightarrow>
          bind (select_position clean_resid_pre position) (assign_position resid_pre position))"

section \<open>The patching scan\<close>

text \<open>
  The dataset, as far as the analysed code reads it: the number of graph states,
  the id-to-label list, the label-to-id dictionary, the start-marker token id and
  the tokenizer. \<open>'g\<close> is the type of task instances.
\<close>

record 'g dataset =
  n_states :: nat
  idx2tokens :: "string list"
  tokens2idx :: "string \<rightharpoonup> int"
  start_token :: int
  tokenize :: "'g \<Rightarrow> tokens"

text \<open>
  One iteration of the scan, first half: the forward pass on the corrupted
  sequence with the single temporary hook
  \<^verbatim>\<open>(get_act_name("resid_pre", layer), partial(hook, position=position))\<close>.
\<close>

definition patched_run :: "model \<Rightarrow> cache \<Rightarrow> tokens \<Rightarrow> nat \<Rightarrow> nat \<Rightarrow> py_error + tensor3" where
  "patched_run m clean_cache corrupted_tokens layer position =
     run_with_hooks m corrupted_tokens
       [(get_act_name_resid_pre layer,
         \<lambda>resid_pre hook. residual_stream_patching_hook clean_cache resid_pre hook position)]"

text \<open>
  Second half: the metric of the patched logits, normalised.
  \<^verbatim>\<open>
  normalize_ratio = (clean_logit_diff - corrupted_logit_diff)
  if normalize_ratio == 0:
      normalize_ratio = 1
  patching_result[layer, position] = (patched_logit_diff - corrupted_logit_diff) / normalize_ratio
  \<close>
\<close>

definition normalize_ratio :: "real \<Rightarrow> real \<Rightarrow> real" where
  "normalize_ratio clean_logit_diff corrupted_logit_diff =
     (let ratio = clean_logit_diff - corrupted_logit_diff
      in if ratio = 0 then 1 else ratio)"

definition normalized_score :: "real \<Rightarrow> real \<Rightarrow> real \<Rightarrow> real" where
  "normalized_score clean_logit_diff corrupted_logit_diff patched_logit_diff =
     (patched_logit_diff - corrupted_logit_diff)
       / normalize_ratio clean_logit_diff corrupted_logit_diff"

definition patching_cell ::
  "model \<Rightarrow> cache \<Rightarrow> tokens \<Rightarrow> tokens \<Rightarrow> int \<Rightarrow> real \<Rightarrow> real \<Rightarrow> nat \<Rightarrow> nat \<Rightarrow> py_error + real" where
  "patching_cell m clean_cache clean_tokens corrupted_tokens comparison_index
       clean_logit_diff corrupted_logit_diff layer position =
     bind (patched_run m clean_cache corrupted_tokens layer position) (\<lambda>patched_logits.
     bind (logits_to_logit_diff clean_tokens corrupted_tokens patched_logits comparison_index)
       (\<lambda>patched_logit_diff.
     Inr (normalized_score clean_logit_diff corrupted_logit_diff patched_logit_diff)))"

text \<open>
  The two nested loops, writing \<^verbatim>\<open>patching_result[layer, position]\<close>; the
  first exception ends the scan.
\<close>

fun position_loop ::
  "(nat \<Rightarrow> nat \<Rightarrow> py_error + real) \<Rightarrow> nat \<Rightarrow> nat list \<Rightarrow> real list list \<Rightarrow> py_error + real list list" where
  "position_loop cell layer [] res = Inr res"
| "position_loop cell layer (p # ps) res =
     bind (cell layer p) (\<lambda>v. position_loop cell layer ps (res[layer := (res ! layer)[p := v]]))"

fun layer_loop ::
  "(nat \<Rightarrow> nat \<Rightarrow> py_error + real) \<Rightarrow> nat list \<Rightarrow> nat list \<Rightarrow> real list list \<Rightarrow> py_error + real list list" where
  "layer_loop cell [] ps res = Inr res"
| "layer_loop cell (l # ls) ps res = bind (position_loop cell l ps res) (layer_loop cell ls ps)"

text \<open>
  \<^verbatim>\<open>activation_patching(model, dataset, clean_tokens, corrupted_tokens, comparison_index)\<close>.
  The two \<^verbatim>\<open>print\<close> lines that look the compared tokens up in
  \<^verbatim>\<open>dataset.idx2tokens\<close> are kept for the exceptions they can raise.
\<close>

definition activation_patching ::
  "model \<Rightarrow> 'g dataset \<Rightarrow> tokens \<Rightarrow> tokens \<Rightarrow> int \<Rightarrow> py_error + real list list" where
  "activation_patching m ds clean_tokens corrupted_tokens comparison_index =
     (case run_with_cache m clean_tokens of (clean_logits, clean_cache) \<Rightarrow>
      bind (logits_to_logit_diff clean_tokens corrupted_tokens clean_logits comparison_index)
        (\<lambda>clean_logit_diff.
      bind (logits_to_logit_diff clean_tokens corrupted_tokens (forward m corrupted_tokens)
              comparison_index)
        (\<lambda>corrupted_logit_diff.
      bind (bind (py_index clean_tokens comparison_index) (py_index (idx2tokens ds))) (\<lambda>_.
      bind (bind (py_index corrupted_tokens comparison_index) (py_index (idx2tokens ds))) (\<lambda>_.
      let num_positions = length clean_tokens;
          patching_result = replicate (n_layers m) (replicate num_positions 0)
      in layer_loop
           (patching_cell m clean_cache clean_tokens corrupted_tokens comparison_index
              clean_logit_diff corrupted_logit_diff)
           [0..<n_layers m] [0..<num_positions] patching_result)))))"

section \<open>External collaborators\<close>

text \<open>
  The services the analysed code calls and the repository keeps elsewhere, taken as
  parameters: the global random generator (\<open>'r\<close> is its state;
  \<^verbatim>\<open>np.random.randint(low, high)\<close> returns a seed and the next state), the
  task-instance generator, the correctness oracle, the function that produces the
  labels and the activation cache of one example, \<^verbatim>\<open>num_last\<close> (the end of the
  answer span among the labels), and the linear probe:
  \<open>linear_cls_probe_fit b X y\<close> is the weight matrix
  \<^verbatim>\<open>tprobe.model.weight.data\<close> of \<^verbatim>\<open>LinearClsProbe(fit_intercept=b)\<close> after
  \<^verbatim>\<open>tprobe.fit(X, y)\<close>.
\<close>

record ('g, 'r) collaborators =
  np_random_randint :: "int \<Rightarrow> int \<Rightarrow> 'r \<Rightarrow> int \<times> 'r"
  generate_example :: "nat \<Rightarrow> int \<Rightarrow> nat option \<Rightarrow> string \<Rightarrow> 'g"
  is_model_correct :: "model \<Rightarrow> 'g dataset \<Rightarrow> 'g \<Rightarrow> bool"
  get_example_cache :: "'g \<Rightarrow> model \<Rightarrow> 'g dataset \<Rightarrow> string list \<times> cache"
  num_last :: "string list \<Rightarrow> string \<Rightarrow> py_error + int"
  linear_cls_probe_fit :: "bool \<Rightarrow> real list list \<Rightarrow> int list \<Rightarrow> py_error + real list list"

text \<open>
  A Python dictionary keyed by probe points is an association list: a lookup is
  \<open>map_of\<close>, an assignment \<^verbatim>\<open>d[k] = v\<close> is \<open>AList.update\<close> (an existing key
  keeps its place, a new one goes to the end), and \<^verbatim>\<open>d.keys()\<close> is
  \<open>map fst\<close>.
\<close>

type_synonym 'v pydict = "(hook_name \<times> 'v) list"

text \<open>\<^verbatim>\<open>{ak: v for ak in keys}\<close>\<close>

definition dict_from_keys :: "hook_name list \<Rightarrow> 'v \<Rightarrow> 'v pydict" where
  "dict_from_keys keys v = fold (\<lambda>ak d. AList.update ak v d) keys []"

section \<open>The activation aggregator\<close>

text \<open>
  \<^verbatim>\<open>
  for key in activation_keys:
      agg_cache[key].append(cache[key].cpu())
  \<close>
\<close>

fun record_activations ::
  "cache \<Rightarrow> hook_name list \<Rightarrow> tensor3 list pydict \<Rightarrow> py_error + tensor3 list pydict" where
  "record_activations cache [] agg_cache = Inr agg_cache"
| "record_activations cache (key # keys) agg_cache =
     (case map_of agg_cache key of
        None \<Rightarrow> Inl KeyError
      | Some acc \<Rightarrow>
          (case cache key of
             None \<Rightarrow> Inl KeyError
           | Some t \<Rightarrow> record_activations cache keys (AList.update key (acc @ [t]) agg_cache)))"

text \<open>
  \<^verbatim>\<open>np.iinfo(32).max\<close>: the argument is a Python integer, whose numpy type is the
  64-bit signed integer.
\<close>

definition np_iinfo_max :: int where
  "np_iinfo_max = 2 ^ 63 - 1"

text \<open>
  \<^verbatim>\<open>
  for _ in range(n_samples):
      test_graph = generate_example(n_states=dataset.n_states,
          seed=np.random.randint(1_000_000, np.iinfo(32).max),
          path_length=path_length, order=order)
      correct = is_model_correct(model, dataset, test_graph)
      if not correct:
          continue
      labels, cache = get_example_cache(test_graph, model, dataset)
      graphs.append(test_graph)
      for key in activation_keys: ...
  \<close>
  The loop state is the accumulator dictionary, the list of accepted instances and
  the state of the random generator.
\<close>

fun sampling_loop ::
  "('g, 'r) collaborators \<Rightarrow> model \<Rightarrow> 'g dataset \<Rightarrow> hook_name list \<Rightarrow> nat option \<Rightarrow> string \<Rightarrow>
   nat \<Rightarrow> tensor3 list pydict \<times> 'g list \<times> 'r \<Rightarrow> py_error + (tensor3 list pydict \<times> 'g list \<times> 'r)" where
  "sampling_loop env m ds activation_keys path_length order 0 st = Inr st"
| "sampling_loop env m ds activation_keys path_length order (Suc n) (agg_cache, graphs, rng) =
     (case np_random_randint env 1000000 np_iinfo_max rng of (seed, rng') \<Rightarrow>
      let test_graph = generate_example env (n_states ds) seed path_length order in
      if \<not> is_model_correct env m ds test_graph
      then sampling_loop env m ds activation_keys path_length order n (agg_cache, graphs, rng')
      else (case get_example_cache env test_graph m ds of (labels, cache) \<Rightarrow>
        bind (record_activations cache activation_keys agg_cache) (\<lambda>agg_cache'.
        sampling_loop env m ds activation_keys path_length order n
          (agg_cache', graphs @ [test_graph], rng'))))"

text \<open>
  \<^verbatim>\<open>aggregate_activations(model, dataset, activation_keys, n_samples, path_length, order)\<close>;
  the state of the random generator goes in and comes out.
\<close>

definition aggregate_activations ::
  "('g, 'r) collaborators \<Rightarrow> model \<Rightarrow> 'g dataset \<Rightarrow> hook_name list \<Rightarrow> nat \<Rightarrow> nat option \<Rightarrow> string \<Rightarrow>
   'r \<Rightarrow> py_error + (tensor3 list pydict \<times> 'g list \<times> 'r)" where
  "aggregate_activations env m ds activation_keys n_samples path_length order rng =
     sampling_loop env m ds activation_keys path_length order n_samples
       (dict_from_keys activation_keys [], [], rng)"

text \<open>
  For comparison with the loop: the seeds that \<open>n\<close> successive draws return, with
  the generator state they leave, and the instances generated from them (the
  generation attempts).
\<close>

fun draw_seeds :: "('r \<Rightarrow> int \<times> 'r) \<Rightarrow> nat \<Rightarrow> 'r \<Rightarrow> int list \<times> 'r" where
  "draw_seeds f 0 rng = ([], rng)"
| "draw_seeds f (Suc n) rng =
     (case f rng of (seed, rng') \<Rightarrow>
      case draw_seeds f n rng' of (seeds, rng'') \<Rightarrow> (seed # seeds, rng''))"

definition attempts ::
  "('g, 'r) collaborators \<Rightarrow> 'g dataset \<Rightarrow> nat option \<Rightarrow> string \<Rightarrow> nat \<Rightarrow> 'r \<Rightarrow> 'g list" where
  "attempts env ds path_length order n rng =
     map (\<lambda>seed. generate_example env (n_states ds) seed path_length order)
       (fst (draw_seeds (np_random_randint env 1000000 np_iinfo_max) n rng))"

section \<open>The lens calibrator\<close>

text \<open>
  \<^verbatim>\<open>
  [get_act_name("normalized", block, "ln1") for block in range(1, model.cfg.n_layers)]
    + ["ln_final.hook_normalized"]
  \<close>
\<close>

definition tuned_lens_keys :: "model \<Rightarrow> hook_name list" where
  "tuned_lens_keys m = map get_act_name_normalized_ln1 [1..<n_layers m] @ [Ln_final_normalized]"

text \<open>
  \<^verbatim>\<open>xs[a:b]\<close>: a negative bound counts from the end, every bound is clipped to
  the sequence, and the slice is empty when the bounds cross.
\<close>

definition py_slice :: "'a list \<Rightarrow> int \<Rightarrow> int \<Rightarrow> 'a list" where
  "py_slice xs a b =
     (let n = int (length xs);
          lo = (if a < 0 then max 0 (a + n) else min a n);
          hi = (if b < 0 then max 0 (b + n) else min b n)
      in take (nat (hi - lo)) (drop (nat lo) xs))"

text \<open>
  \<^verbatim>\<open>np.where(tokens == v)[0].item()\<close>: the one position holding \<open>v\<close>;
  \<^verbatim>\<open>.item()\<close> raises unless there is exactly one.
\<close>

definition np_where_item :: "tokens \<Rightarrow> int \<Rightarrow> py_error + int" where
  "np_where_item toks v =
     (case filter (\<lambda>i. toks ! i = v) [0..<length toks] of
        [i] \<Rightarrow> Inr (int i)
      | _ \<Rightarrow> Inl ValueError)"

text \<open>\<^verbatim>\<open>[dataset.idx2tokens[idx] for idx in tokens]\<close>\<close>

fun lookup_labels :: "string list \<Rightarrow> int list \<Rightarrow> py_error + string list" where
  "lookup_labels i2t [] = Inr []"
| "lookup_labels i2t (idx # idxs) =
     bind (py_index i2t idx) (\<lambda>l. bind (lookup_labels i2t idxs) (\<lambda>ls. Inr (l # ls)))"

text \<open>
  \<^verbatim>\<open>
  tokens = dataset.tokenize(graph)[:-1]
  start_idx = np.where(tokens == dataset.start_token)[0].item() + 2
  labels = [dataset.idx2tokens[idx] for idx in tokens]
  end_idx = num_last(labels, ",")
  \<close>
\<close>

definition example_span :: "('g, 'r) collaborators \<Rightarrow> 'g dataset \<Rightarrow> 'g \<Rightarrow> py_error + (int \<times> int)" where
  "example_span env ds graph =
     (let tokens = butlast (tokenize ds graph) in
      bind (np_where_item tokens (start_token ds)) (\<lambda>i.
      let start_idx = i + 2 in
      bind (lookup_labels (idx2tokens ds) tokens) (\<lambda>labels.
      bind (num_last env labels '','') (\<lambda>end_idx.
      Inr (start_idx, end_idx)))))"

text \<open>
  \<^verbatim>\<open>
  for key in X.keys():
      streams = acts[key][gidx][0, start_idx-1:end_idx-1]
      X[key].append(streams)
  \<close>
\<close>

fun append_streams ::
  "tensor3 list pydict \<Rightarrow> nat \<Rightarrow> int \<Rightarrow> int \<Rightarrow> hook_name list \<Rightarrow>
   real list list list pydict \<Rightarrow> py_error + real list list list pydict" where
  "append_streams acts gidx start_idx end_idx [] X = Inr X"
| "append_streams acts gidx start_idx end_idx (key # keys) X =
     (case map_of acts key of
        None \<Rightarrow> Inl KeyError
      | Some ts \<Rightarrow>
          bind (py_index ts (int gidx)) (\<lambda>t.
          bind (py_index t 0) (\<lambda>t0.
          let streams = py_slice t0 (start_idx - 1) (end_idx - 1) in
          (case map_of X key of
             None \<Rightarrow> Inl KeyError
           | Some rows \<Rightarrow>
               append_streams acts gidx start_idx end_idx keys
                 (AList.update key (rows @ [streams]) X)))))"

text \<open>The body of \<^verbatim>\<open>for gidx, graph in enumerate(graphs)\<close>, and the loop.\<close>

definition calibration_step ::
  "('g, 'r) collaborators \<Rightarrow> 'g dataset \<Rightarrow> tensor3 list pydict \<Rightarrow> nat \<Rightarrow> 'g \<Rightarrow>
   real list list list pydict \<times> int list list \<Rightarrow>
   py_error + (real list list list pydict \<times> int list list)" where
  "calibration_step env ds acts gidx graph st =
     (case st of (X, y) \<Rightarrow>
      bind (example_span env ds graph) (\<lambda>(start_idx, end_idx).
      let y' = y @ [py_slice (butlast (tokenize ds graph)) start_idx end_idx] in
      bind (append_streams acts gidx start_idx end_idx (map fst X) X) (\<lambda>X'.
      Inr (X', y'))))"

fun calibration_loop ::
  "('g, 'r) collaborators \<Rightarrow> 'g dataset \<Rightarrow> tensor3 list pydict \<Rightarrow> nat \<Rightarrow> 'g list \<Rightarrow>
   real list list list pydict \<times> int list list \<Rightarrow>
   py_error + (real list list list pydict \<times> int list list)" where
  "calibration_loop env ds acts gidx [] st = Inr st"
| "calibration_loop env ds acts gidx (graph # graphs) st =
     bind (calibration_step env ds acts gidx graph st)
       (calibration_loop env ds acts (Suc gidx) graphs)"

text \<open>
  \<^verbatim>\<open>torch.cat(ts, dim=0)\<close> raises on an empty list and on rows of different
  widths; \<^verbatim>\<open>np.concatenate(ys, axis=0)\<close> raises on an empty list.
\<close>

definition torch_cat :: "real list list list \<Rightarrow> py_error + real list list" where
  "torch_cat ts =
     (if ts = [] then Inl RuntimeError
      else (case concat ts of
              [] \<Rightarrow> Inr []
            | r # rs \<Rightarrow>
                if list_all (\<lambda>r'. length r' = length r) rs then Inr (r # rs)
                else Inl RuntimeError))"

definition np_concatenate :: "int list list \<Rightarrow> py_error + int list" where
  "np_concatenate ys = (if ys = [] then Inl ValueError else Inr (concat ys))"

text \<open>
  \<^verbatim>\<open>
  for key in X.keys():
      X[key] = torch.cat(X[key], dim=0).detach().cpu().numpy()
  \<close>
\<close>

fun cat_loop :: "real list list list pydict \<Rightarrow> py_error + real list list pydict" where
  "cat_loop [] = Inr []"
| "cat_loop ((key, ts) # X) =
     bind (torch_cat ts) (\<lambda>rows. bind (cat_loop X) (\<lambda>X'. Inr ((key, rows) # X')))"

text \<open>
  The training rows per probe point and the training labels: the part of
  \<^verbatim>\<open>calculate_tuned_lens\<close> between the aggregation and the fitting.
\<close>

definition calibration_dataset ::
  "('g, 'r) collaborators \<Rightarrow> 'g dataset \<Rightarrow> tensor3 list pydict \<Rightarrow> 'g list \<Rightarrow>
   py_error + (real list list pydict \<times> int list)" where
  "calibration_dataset env ds acts graphs =
     bind (calibration_loop env ds acts 0 graphs (dict_from_keys (map fst acts) [], []))
       (\<lambda>(X, y).
     bind (cat_loop X) (\<lambda>X'.
     bind (np_concatenate y) (\<lambda>y'.
     Inr (X', y'))))"

text \<open>
  \<^verbatim>\<open>
  for key in X.keys():
      tprobe = LinearClsProbe(fit_intercept=False)
      tprobe.fit(X[key], y)
      print(tprobe.score(X[key], y))
      W = tprobe.model.weight.data
      W = W.T
      translators[key] = W.to(model.cfg.device)
  \<close>
  The printed score is not modelled.
\<close>

fun fit_translators ::
  "('g, 'r) collaborators \<Rightarrow> real list list pydict \<Rightarrow> int list \<Rightarrow> real list list pydict \<Rightarrow>
   py_error + real list list pydict" where
  "fit_translators env [] y translators = Inr translators"
| "fit_translators env ((key, rows) # X) y translators =
     bind (linear_cls_probe_fit env False rows y) (\<lambda>W.
     fit_translators env X y (AList.update key (transpose W) translators))"

definition calculate_tuned_lens ::
  "('g, 'r) collaborators \<Rightarrow> model \<Rightarrow> 'g dataset \<Rightarrow> 'r \<Rightarrow> py_error + (real list list pydict \<times> 'r)" where
  "calculate_tuned_lens env m ds rng =
     bind (aggregate_activations env m ds (tuned_lens_keys m) 16384 None ''random'' rng)
       (\<lambda>(acts, graphs, rng').
     bind (calibration_dataset env ds acts graphs) (\<lambda>(X, y).
     bind (fit_translators env X y []) (\<lambda>translators.
     Inr (translators, rng'))))"

section \<open>The lens decoder\<close>

text \<open>
  \<^verbatim>\<open>A @ B\<close> for a \<open>[position, hidden]\<close> matrix and a \<open>[hidden, vocabulary]\<close>
  matrix; it raises when a row of \<open>A\<close> does not have one entry per row of \<open>B\<close>.
\<close>

definition matmul :: "real list list \<Rightarrow> real list list \<Rightarrow> py_error + real list list" where
  "matmul A B =
     (if list_all (\<lambda>row. length row = length B) A
      then Inr (map (\<lambda>row. map (\<lambda>col. sum_list (map2 (*) row col)) (transpose B)) A)
      else Inl RuntimeError)"

text \<open>
  \<^verbatim>\<open>t.argmax(-1)\<close>: for every row the index of its first maximal entry; an empty
  row raises. \<^verbatim>\<open>t.softmax(-1)\<close>: every row exponentiated and normalised.
\<close>

fun argmax_from :: "real \<Rightarrow> nat \<Rightarrow> nat \<Rightarrow> real list \<Rightarrow> nat" where
  "argmax_from best bi i [] = bi"
| "argmax_from best bi i (x # xs) =
     (if best < x then argmax_from x i (Suc i) xs else argmax_from best bi (Suc i) xs)"

fun argmax_rows :: "real list list \<Rightarrow> py_error + int list" where
  "argmax_rows [] = Inr []"
| "argmax_rows ([] # rows) = Inl IndexError"
| "argmax_rows ((x # xs) # rows) =
     bind (argmax_rows rows) (\<lambda>is. Inr (int (argmax_from x 0 1 xs) # is))"

definition softmax_rows :: "real list list \<Rightarrow> real list list" where
  "softmax_rows rows = map (\<lambda>row. map (\<lambda>x. exp x / sum_list (map exp row)) row) rows"

text \<open>
  One layer of either decoder:
  \<^verbatim>\<open>
  if layer < model.cfg.n_layers:
      act_name = tl_util.get_act_name("normalized", layer, "ln1")
  else:
      act_name = "ln_final.hook_normalized"
  res_stream = cache[act_name][0]
  if lenses is not None:
      out_proj = res_stream @ lenses[act_name]
  else:
      out_proj = res_stream @ model.W_U
  \<close>
\<close>

definition lens_act_name :: "model \<Rightarrow> nat \<Rightarrow> hook_name" where
  "lens_act_name m layer =
     (if layer < n_layers m then get_act_name_normalized_ln1 layer else Ln_final_normalized)"

definition lens_projection ::
  "model \<Rightarrow> real list list pydict option \<Rightarrow> cache \<Rightarrow> nat \<Rightarrow> py_error + real list list" where
  "lens_projection m lenses cache layer =
     (let act_name = lens_act_name m layer in
      case cache act_name of
        None \<Rightarrow> Inl KeyError
      | Some t \<Rightarrow>
          bind (py_index t 0) (\<lambda>res_stream.
          case lenses of
            Some ls \<Rightarrow>
              (case map_of ls act_name of
                 None \<Rightarrow> Inl KeyError
               | Some M \<Rightarrow> matmul res_stream M)
          | None \<Rightarrow> matmul res_stream (W_U m)))"

text \<open>
  Argmax mode, the loop \<^verbatim>\<open>for layer in range(1, model.cfg.n_layers+1)\<close> of
  \<^verbatim>\<open>logit_lens\<close>:
  \<^verbatim>\<open>
  out_proj = out_proj.argmax(-1)
  lens_out = [dataset.idx2tokens[i] for i in out_proj]
  outs.append([f"Layer {layer} LL"] + lens_out[47:end])
  \<close>
  The loop state is the cache together with \<open>outs\<close>; a row of \<open>outs\<close> is the
  layer number (for the row's caption) and the decoded labels.
\<close>

fun lens_argmax_loop ::
  "model \<Rightarrow> 'g dataset \<Rightarrow> real list list pydict option \<Rightarrow> int \<Rightarrow> nat list \<Rightarrow>
   cache \<times> (nat \<times> string list) list \<Rightarrow> py_error + (cache \<times> (nat \<times> string list) list)" where
  "lens_argmax_loop m ds lenses end_idx [] st = Inr st"
| "lens_argmax_loop m ds lenses end_idx (layer # layers) (cache, outs) =
     bind (lens_projection m lenses cache layer) (\<lambda>out_proj.
     bind (argmax_rows out_proj) (\<lambda>out_proj.
     bind (lookup_labels (idx2tokens ds) out_proj) (\<lambda>lens_out.
     lens_argmax_loop m ds lenses end_idx layers
       (cache, outs @ [(layer, py_slice lens_out 47 end_idx)]))))"

text \<open>
  The decoding of \<^verbatim>\<open>logit_lens\<close> once labels, cache and \<^verbatim>\<open>end\<close> are at hand.
  The result is the table handed to the plotting library (its header and its rows,
  before the transposition made for display), with the cache as the decoding
  leaves it.
\<close>

definition logit_lens_decode ::
  "model \<Rightarrow> 'g dataset \<Rightarrow> real list list pydict option \<Rightarrow> string list \<Rightarrow> int \<Rightarrow> cache \<Rightarrow>
   py_error + ((string list \<times> (nat \<times> string list) list) \<times> cache)" where
  "logit_lens_decode m ds lenses labels end_idx cache =
     bind (lens_argmax_loop m ds lenses end_idx [1..<n_layers m + 1] (cache, []))
       (\<lambda>(cache', outs).
     Inr ((''Current Input'' # py_slice labels 47 end_idx, outs), cache'))"

text \<open>\<^verbatim>\<open>logit_lens(pred, model, dataset, lenses)\<close>\<close>

definition logit_lens ::
  "('g, 'r) collaborators \<Rightarrow> 'g \<Rightarrow> model \<Rightarrow> 'g dataset \<Rightarrow> real list list pydict option \<Rightarrow>
   py_error + ((string list \<times> (nat \<times> string list) list) \<times> cache)" where
  "logit_lens env pred m ds lenses =
     (case get_example_cache env pred m ds of (labels, cache) \<Rightarrow>
      bind (num_last env labels '','') (\<lambda>end_idx.
      logit_lens_decode m ds lenses labels end_idx cache))"

text \<open>
  Probability mode, the loop of \<^verbatim>\<open>logit_lens_correct_probs\<close>:
  \<^verbatim>\<open>
  out_proj = out_proj.softmax(-1)
  probs.append( out_proj[position, correct_token_idx].item() )
  \<close>
\<close>

fun lens_probs_loop ::
  "model \<Rightarrow> real list list pydict option \<Rightarrow> int \<Rightarrow> int \<Rightarrow> nat list \<Rightarrow>
   cache \<times> real list \<Rightarrow> py_error + (cache \<times> real list)" where
  "lens_probs_loop m lenses position correct_token_idx [] st = Inr st"
| "lens_probs_loop m lenses position correct_token_idx (layer # layers) (cache, probs) =
     bind (lens_projection m lenses cache layer) (\<lambda>out_proj.
     let out_proj = softmax_rows out_proj in
     bind (py_index out_proj position) (\<lambda>row.
     bind (py_index row correct_token_idx) (\<lambda>p.
     lens_probs_loop m lenses position correct_token_idx layers (cache, probs @ [p]))))"

text \<open>
  The decoding of \<^verbatim>\<open>logit_lens_correct_probs\<close> once labels and cache are at hand;
  the plot's title reads \<^verbatim>\<open>labels[position]\<close>, which can raise.
\<close>

definition logit_lens_correct_probs_decode ::
  "model \<Rightarrow> 'g dataset \<Rightarrow> int \<Rightarrow> real list list pydict option \<Rightarrow> string list \<Rightarrow> cache \<Rightarrow>
   py_error + (real list \<times> cache)" where
  "logit_lens_correct_probs_decode m ds position lenses labels cache =
     bind (py_index labels (position + 1)) (\<lambda>correct_token.
     case tokens2idx ds correct_token of
       None \<Rightarrow> Inl KeyError
     | Some correct_token_idx \<Rightarrow>
         bind (lens_probs_loop m lenses position correct_token_idx [1..<n_layers m + 1] (cache, []))
           (\<lambda>(cache', probs).
         bind (py_index labels position) (\<lambda>_.
         Inr (probs, cache'))))"

text \<open>\<^verbatim>\<open>logit_lens_correct_probs(pred, model, dataset, position, lenses)\<close>\<close>

definition logit_lens_correct_probs ::
  "('g, 'r) collaborators \<Rightarrow> 'g \<Rightarrow> model \<Rightarrow> 'g dataset \<Rightarrow> int \<Rightarrow> real list list pydict option \<Rightarrow>
   py_error + (real list \<times> cache)" where
  "logit_lens_correct_probs env pred m ds position lenses =
     (case get_example_cache env pred m ds of (labels, cache) \<Rightarrow>
      logit_lens_correct_probs_decode m ds position lenses labels cache)"

section \<open>A small concrete model and dataset\<close>

text \<open>
  A one-layer model over a four-token vocabulary, used to instantiate the theorems
  below: every token is embedded as a one-dimensional vector, the block replaces
  each position by the running sum up to that position (a causal mixing of
  positions), and the logits of a position are \<open>[0, 0, s, - s]\<close> for its value
  \<open>s\<close>.
\<close>

fun cumulative :: "real \<Rightarrow> real list list \<Rightarrow> real list list" where
  "cumulative acc [] = []"
| "cumulative acc (r # rs) = [acc + sum_list r] # cumulative (acc + sum_list r) rs"

definition toy_model :: model where
  "toy_model =
     \<lparr> n_layers = 1,
       embed = (\<lambda>toks. [map (\<lambda>t. [real_of_int t]) toks]),
       block = (\<lambda>l. map (cumulative 0)),
       unembed = map (map (\<lambda>r. [0, 0, sum_list r, - sum_list r])),
       W_U = [[0, 0, 1, - 1]] \<rparr>"

definition toy_dataset :: "string dataset" where
  "toy_dataset =
     \<lparr> n_states = 2,
       idx2tokens = ['','', ''|'', ''a'', ''b''],
       tokens2idx = map_of [('','', 0), (''|'', 1), (''a'', 2), (''b'', 3)],
       start_token = 1,
       tokenize = map (\<lambda>c. if c = CHR '','' then 0 else if c = CHR ''|'' then 1
                            else if c = CHR ''a'' then 2 else 3) \<rparr>"

text \<open>
  Concrete collaborators: a counting random generator, three task instances chosen
  by the seed (two of the seeds give the instances the oracle accepts), an oracle that rejects one of them, a cache holding the final
  residual stream of the concrete model under the final-normalised name, trailing
  commas as padding, and a probe whose weight row for a token sums the rows
  labelled with it.
\<close>

definition toy_env :: "(string, int) collaborators" where
  "toy_env =
     \<lparr> np_random_randint = (\<lambda>low high rng. (low + rng, rng + 1)),
       generate_example = (\<lambda>n seed path_length order.
          if seed = 1000000 then ''|aab,,'' else if seed = 1000002 then ''|ab,,,'' else ''|b,,,,''),
       is_model_correct = (\<lambda>m ds g. g \<noteq> ''|b,,,,''),
       get_example_cache = (\<lambda>g m ds.
          let toks = butlast (tokenize ds g)
          in (map (\<lambda>t. idx2tokens ds ! nat t) toks,
              (\<lambda>nm. if nm = Ln_final_normalized
                     then Some (run_blocks m [0..<n_layers m] (embed m toks)) else None))),
       num_last = (\<lambda>labels c.
          let n = length (dropWhile (\<lambda>l. l = c) (rev labels))
          in if n = 0 then Inl IndexError else Inr (int n)),
       linear_cls_probe_fit = (\<lambda>fit_intercept X y.
          if length X \<noteq> length y then Inl ValueError
          else Inr (map (\<lambda>v. [sum_list (map (\<lambda>(r, l). if l = int v then sum_list r else 0) (zip X y))
                               + (if fit_intercept then 1 else 0)]) [0..<4])) \<rparr>"

section \<open>Basic facts\<close>

lemma bind_Inr [simp]: "bind (Inr x) f = f x"
  by (simp add: bind_def)

lemma bind_Inl [simp]: "bind (Inl e) f = Inl e"
  by (simp add: bind_def)

lemma bind_eq_Inr_iff: "bind r f = Inr y \<longleftrightarrow> (\<exists>x. r = Inr x \<and> f x = Inr y)"
  by (cases r) simp_all

lemma py_index_in_range:
  "0 \<le> i \<Longrightarrow> i < int (length xs) \<Longrightarrow> py_index xs i = Inr (xs ! nat i)"
  by (simp add: py_index_def)

section \<open>The scan loops as folds\<close>

lemma length_fold_update: "length (fold (\<lambda>p row. row[p := f p]) ps row) = length row"
  by (induction ps arbitrary: row) simp_all

lemma nth_fold_update:
  "q < length row \<Longrightarrow>
   fold (\<lambda>p row. row[p := f p]) ps row ! q = (if q \<in> set ps then f q else row ! q)"
  by (induction ps arbitrary: row) (auto simp: nth_list_update)

lemma position_loop_fold:
  assumes "\<And>p. p \<in> set ps \<Longrightarrow> cell l p = Inr (f p)" and "l < length res"
  shows "position_loop cell l ps res = Inr (res[l := fold (\<lambda>p row. row[p := f p]) ps (res ! l)])"
  using assms
proof (induction ps arbitrary: res)
  case Nil
  then show ?case by simp
next
  case (Cons p ps)
  have "cell l p = Inr (f p)" using Cons.prems(1) by simp
  moreover have "position_loop cell l ps (res[l := (res ! l)[p := f p]]) =
      Inr ((res[l := (res ! l)[p := f p]])[l := fold (\<lambda>p row. row[p := f p]) ps
          ((res[l := (res ! l)[p := f p]]) ! l)])"
    using Cons.prems by (intro Cons.IH) simp_all
  ultimately show ?case using Cons.prems(2) by simp
qed

lemma layer_loop_fold:
  assumes "\<And>l p. l \<in> set ls \<Longrightarrow> p \<in> set ps \<Longrightarrow> cell l p = Inr (f l p)"
    and "\<And>l. l \<in> set ls \<Longrightarrow> l < length res"
  shows "layer_loop cell ls ps res =
     Inr (fold (\<lambda>l r. r[l := fold (\<lambda>p row. row[p := f l p]) ps (r ! l)]) ls res)"
  using assms
proof (induction ls arbitrary: res)
  case Nil
  then show ?case by simp
next
  case (Cons l ls)
  have step: "position_loop cell l ps res =
      Inr (res[l := fold (\<lambda>p row. row[p := f l p]) ps (res ! l)])"
    using Cons.prems by (intro position_loop_fold) simp_all
  show ?case
    using Cons.prems by (simp add: step Cons.IH)
qed

lemma length_fold_rows: "length (fold (\<lambda>l r. r[l := g l (r ! l)]) ls res) = length res"
  by (induction ls arbitrary: res) simp_all

lemma nth_fold_rows:
  "distinct ls \<Longrightarrow> k < length res \<Longrightarrow>
   fold (\<lambda>l r. r[l := g l (r ! l)]) ls res ! k = (if k \<in> set ls then g k (res ! k) else res ! k)"
proof (induction ls arbitrary: res)
  case Nil
  then show ?case by simp
next
  case (Cons a ls)
  show ?case
  proof (cases "a = k")
    case True
    then have "k \<notin> set ls" using Cons.prems(1) by simp
    then show ?thesis using Cons.prems True by (simp add: Cons.IH)
  next
    case False
    then show ?thesis using Cons.prems by (simp add: Cons.IH)
  qed
qed

lemma scan_grid_cell:
  assumes cells: "\<And>l p. l < n \<Longrightarrow> p < k \<Longrightarrow> cell l p = Inr (f l p)"
  shows "\<exists>res. layer_loop cell [0..<n] [0..<k] (replicate n (replicate k 0)) = Inr res \<and>
     length res = n \<and> (\<forall>l<n. length (res ! l) = k \<and> (\<forall>p<k. res ! l ! p = f l p))"
proof -
  let ?g = "\<lambda>l row. fold (\<lambda>p row. row[p := f l p]) [0..<k] row"
  let ?res = "fold (\<lambda>l r. r[l := ?g l (r ! l)]) [0..<n] (replicate n (replicate k 0))"
  have run: "layer_loop cell [0..<n] [0..<k] (replicate n (replicate k 0)) = Inr ?res"
    using cells by (intro layer_loop_fold) simp_all
  have len: "length ?res = n"
    using length_fold_rows [of ?g "[0..<n]" "replicate n (replicate k 0)"] by simp
  have row: "?res ! l = ?g l (replicate k 0)" if "l < n" for l
    using that nth_fold_rows [of "[0..<n]" l "replicate n (replicate k 0)" ?g] by simp
  have "length (?res ! l) = k \<and> (\<forall>p<k. ?res ! l ! p = f l p)" if "l < n" for l
    using that by (simp add: row length_fold_update nth_fold_update)
  with run len show ?thesis by blast
qed

section \<open>A forward pass with a single hook\<close>

lemma bind_apply_hooks_Nil [simp]: "bind r (apply_hooks [] nm) = r"
  by (cases r) simp_all

lemma run_layers_append:
  "run_layers m hs (xs @ ys) x = bind (run_layers m hs xs x) (run_layers m hs ys)"
proof (induction xs arbitrary: x)
  case Nil
  then show ?case by simp
next
  case (Cons l xs)
  show ?case
    by (cases "apply_hooks hs (Resid_pre l) x") (simp_all add: Cons.IH)
qed

lemma run_layers_unhooked:
  "L \<notin> set ls \<Longrightarrow> run_layers m [(Resid_pre L, f)] ls x = Inr (run_blocks m ls x)"
  by (induction ls arbitrary: x) (auto simp: run_blocks_def)

lemma run_layers_no_hooks: "run_layers m [] ls x = Inr (run_blocks m ls x)"
  by (induction ls arbitrary: x) (auto simp: run_blocks_def)

lemma run_with_hooks_no_hooks: "run_with_hooks m toks [] = Inr (forward m toks)"
  by (simp add: run_with_hooks_def run_layers_no_hooks forward_def)

lemma upt_split3: "L < n \<Longrightarrow> [0..<n] = [0..<L] @ L # [Suc L..<n]"
proof -
  assume "L < n"
  then have "[0..<n] = [0..<L] @ [L..<n]"
    using upt_add_eq_append [of 0 L "n - L"] by simp
  moreover have "[L..<n] = L # [Suc L..<n]"
    using \<open>L < n\<close> by (simp add: upt_conv_Cons)
  ultimately show ?thesis by simp
qed

lemma run_with_hooks_single:
  assumes "L < n_layers m"
  shows "run_with_hooks m toks [(Resid_pre L, f)] =
     bind (f (resid_pre_at m toks L) (Resid_pre L))
       (\<lambda>x'. Inr (unembed m (run_blocks m [Suc L..<n_layers m] (block m L x'))))"
proof -
  have "run_layers m [(Resid_pre L, f)] [0..<n_layers m] (embed m toks) =
      bind (f (resid_pre_at m toks L) (Resid_pre L))
        (\<lambda>x'. Inr (run_blocks m [Suc L..<n_layers m] (block m L x')))"
    unfolding upt_split3 [OF assms] run_layers_append
    by (simp add: run_layers_unhooked resid_pre_at_def)
  then show ?thesis
    by (cases "f (resid_pre_at m toks L) (Resid_pre L)") (simp_all add: run_with_hooks_def)
qed

section \<open>The patching hook on well-shaped tensors\<close>

lemma select_position_ok:
  "(\<And>b. b < length c \<Longrightarrow> p < length (c ! b)) \<Longrightarrow>
   select_position c p = Inr (map (\<lambda>cb. cb ! p) c)"
  by (simp add: select_position_def list_all_length)

lemma assign_rows_ok:
  "length t = length rs \<Longrightarrow> (\<And>b. b < length t \<Longrightarrow> length (rs ! b) = length (t ! b ! p)) \<Longrightarrow>
   assign_rows t p rs = Inr (map2 (\<lambda>tb r. tb[p := r]) t rs)"
proof (induction t rs rule: list_induct2)
  case Nil
  then show ?case by simp
next
  case (Cons tb t r rs)
  have "length r = length (tb ! p)"
    using Cons.prems [of 0] by simp
  moreover have "assign_rows t p rs = Inr (map2 (\<lambda>tb r. tb[p := r]) t rs)"
  proof (rule Cons.IH)
    fix b assume "b < length t"
    then show "length (rs ! b) = length (t ! b ! p)"
      using Cons.prems [of "Suc b"] by simp
  qed
  ultimately show ?case
    by (simp add: broadcast_to_def)
qed

lemma assign_position_ok:
  assumes "length t = length rs"
    and "\<And>b. b < length t \<Longrightarrow> p < length (t ! b) \<and> length (rs ! b) = length (t ! b ! p)"
  shows "assign_position t p rs = Inr (map2 (\<lambda>tb r. tb[p := r]) t rs)"
proof -
  have "list_all (\<lambda>tb. p < length tb) t"
    using assms(2) by (simp add: list_all_length)
  moreover have "broadcast_to (length t) rs = Inr rs"
    using assms(1) by (simp add: broadcast_to_def)
  ultimately show ?thesis
    using assms by (simp add: assign_position_def assign_rows_ok)
qed

lemma patching_hook_ok:
  assumes cache: "clean_cache nm = Some c"
    and batch: "length c = length r"
    and shape: "\<And>b. b < length r \<Longrightarrow>
      p < length (r ! b) \<and> p < length (c ! b) \<and> length (c ! b ! p) = length (r ! b ! p)"
  shows "residual_stream_patching_hook clean_cache r nm p =
     Inr (map2 (\<lambda>rb cb. rb[p := cb ! p]) r c)"
proof -
  have sel: "select_position c p = Inr (map (\<lambda>cb. cb ! p) c)"
    using batch shape by (intro select_position_ok) simp
  have asg: "assign_position r p (map (\<lambda>cb. cb ! p) c) =
      Inr (map2 (\<lambda>tb row. tb[p := row]) r (map (\<lambda>cb. cb ! p) c))"
    using batch shape by (intro assign_position_ok) simp_all
  have "map2 (\<lambda>tb row. tb[p := row]) r (map (\<lambda>cb. cb ! p) c) = map2 (\<lambda>rb cb. rb[p := cb ! p]) r c"
    by (simp add: zip_map2 case_prod_unfold)
  then show ?thesis
    by (simp add: residual_stream_patching_hook_def cache sel asg)
qed

lemma map2_update_same:
  "(\<And>b. b < length r \<Longrightarrow> p < length (r ! b)) \<Longrightarrow> map2 (\<lambda>rb cb. rb[p := cb ! p]) r r = r"
  by (simp add: list_eq_iff_nth_eq)

lemma run_with_cache_resid_pre:
  "L < n_layers m \<Longrightarrow> snd (run_with_cache m toks) (Resid_pre L) = Some (resid_pre_at m toks L)"
  by (simp add: run_with_cache_def)

lemma normalize_ratio_nonzero: "normalize_ratio cd kd \<noteq> 0"
  by (simp add: normalize_ratio_def Let_def)

section \<open>The scan as a whole\<close>

lemma activation_patching_cells:
  assumes clean: "logits_to_logit_diff clean_tokens corrupted_tokens
        (fst (run_with_cache m clean_tokens)) ci = Inr cd"
    and corrupted: "logits_to_logit_diff clean_tokens corrupted_tokens
        (forward m corrupted_tokens) ci = Inr kd"
    and positive: "bind (py_index clean_tokens ci) (py_index (idx2tokens ds)) = Inr pos_label"
    and negative: "bind (py_index corrupted_tokens ci) (py_index (idx2tokens ds)) = Inr neg_label"
    and patched: "\<And>L P. L < n_layers m \<Longrightarrow> P < length clean_tokens \<Longrightarrow>
        bind (patched_run m (snd (run_with_cache m clean_tokens)) corrupted_tokens L P)
          (\<lambda>patched_logits. logits_to_logit_diff clean_tokens corrupted_tokens patched_logits ci)
        = Inr (pd L P)"
  shows "\<exists>res. activation_patching m ds clean_tokens corrupted_tokens ci = Inr res \<and>
      length res = n_layers m \<and>
      (\<forall>L<n_layers m. length (res ! L) = length clean_tokens \<and>
         (\<forall>P<length clean_tokens. res ! L ! P = normalized_score cd kd (pd L P)))"
proof -
  let ?cache = "snd (run_with_cache m clean_tokens)"
  let ?cell = "patching_cell m ?cache clean_tokens corrupted_tokens ci cd kd"
  let ?f = "\<lambda>L P. normalized_score cd kd (pd L P)"
  have cell: "?cell L P = Inr (?f L P)" if "L < n_layers m" "P < length clean_tokens" for L P
    using patched [OF that]
    by (cases "patched_run m ?cache corrupted_tokens L P") (simp_all add: patching_cell_def)
  obtain res where run: "layer_loop ?cell [0..<n_layers m] [0..<length clean_tokens]
        (replicate (n_layers m) (replicate (length clean_tokens) 0)) = Inr res"
    and len: "length res = n_layers m"
    and cells: "\<forall>l<n_layers m. length (res ! l) = length clean_tokens \<and>
        (\<forall>p<length clean_tokens. res ! l ! p = ?f l p)"
    using scan_grid_cell [of "n_layers m" "length clean_tokens" ?cell ?f] cell by blast
  have "activation_patching m ds clean_tokens corrupted_tokens ci = Inr res"
    using clean corrupted positive negative run
    by (simp add: activation_patching_def case_prod_unfold Let_def)
  then show ?thesis
    using len cells by blast
qed

lemma run_blocks_resume:
  "L < n \<Longrightarrow> run_blocks m [Suc L..<n] (block m L (run_blocks m [0..<L] x)) = run_blocks m [0..<n] x"
  by (simp add: upt_split3 [of L n] run_blocks_def)

lemma patched_run_same_tokens:
  assumes L: "L < n_layers m"
    and shape: "\<And>b. b < length (resid_pre_at m toks L) \<Longrightarrow> P < length (resid_pre_at m toks L ! b)"
  shows "patched_run m (snd (run_with_cache m toks)) toks L P = Inr (forward m toks)"
proof -
  let ?r = "resid_pre_at m toks L"
  have "residual_stream_patching_hook (snd (run_with_cache m toks)) ?r (Resid_pre L) P =
      Inr (map2 (\<lambda>rb cb. rb[P := cb ! P]) ?r ?r)"
    using L shape by (intro patching_hook_ok) (simp_all add: run_with_cache_resid_pre)
  then have "residual_stream_patching_hook (snd (run_with_cache m toks)) ?r (Resid_pre L) P = Inr ?r"
    using shape by (simp add: map2_update_same)
  then show ?thesis
    using L by (simp add: patched_run_def get_act_name_resid_pre_def run_with_hooks_single
        forward_def resid_pre_at_def run_blocks_resume)
qed

section \<open>The aggregator loop\<close>

lemma map_of_dict_from_keys_aux:
  "map_of (fold (\<lambda>ak d. AList.update ak v d) keys d0) k =
     (if k \<in> set keys then Some v else map_of d0 k)"
  by (induction keys arbitrary: d0) (auto simp: update_conv')

lemma map_of_dict_from_keys:
  "map_of (dict_from_keys keys v) k = (if k \<in> set keys then Some v else None)"
  by (simp add: dict_from_keys_def map_of_dict_from_keys_aux)

lemma keys_dict_from_keys_aux:
  "set (map fst (fold (\<lambda>ak d. AList.update ak v d) keys d0)) = set keys \<union> set (map fst d0)"
  by (induction keys arbitrary: d0) (auto simp: dom_update)

lemma keys_dict_from_keys: "fst ` set (dict_from_keys keys v) = set keys"
  using keys_dict_from_keys_aux [of v keys "[]"] by (simp add: dict_from_keys_def)

lemma record_activations_Inr:
  "record_activations cache keys agg = Inr agg' \<Longrightarrow>
   map fst agg' = map fst agg \<and> (\<forall>k\<in>set keys. cache k \<noteq> None) \<and>
   (\<forall>k. map_of agg' k =
      map_option (\<lambda>acc. acc @ replicate (count_list keys k) (the (cache k))) (map_of agg k))"
proof (induction keys arbitrary: agg)
  case Nil
  then show ?case by (simp add: option.map_ident)
next
  case (Cons key keys)
  from Cons.prems obtain acc t where acc: "map_of agg key = Some acc" and t: "cache key = Some t"
    and rest: "record_activations cache keys (AList.update key (acc @ [t]) agg) = Inr agg'"
    by (auto split: option.splits)
  have key_in: "key \<in> fst ` set agg"
    using map_of_SomeD [OF acc] by (metis fst_conv image_eqI)
  have keys: "map fst (AList.update key (acc @ [t]) agg) = map fst agg"
    using key_in by (simp add: update_keys)
  from Cons.IH [OF rest] keys acc t show ?case
    by (auto simp: update_conv' replicate_append_same)
qed

lemma record_activations_ok:
  assumes "set keys \<subseteq> fst ` set agg" and "\<forall>k\<in>set keys. cache k \<noteq> None"
  shows "\<exists>agg'. record_activations cache keys agg = Inr agg'"
  using assms
proof (induction keys arbitrary: agg)
  case Nil
  then show ?case by simp
next
  case (Cons key keys)
  from Cons.prems obtain acc t where acc: "map_of agg key = Some acc" and t: "cache key = Some t"
    by (metis list.set_intros(1) map_of_eq_None_iff not_None_eq subsetD)
  have "set keys \<subseteq> fst ` set (AList.update key (acc @ [t]) agg)"
    using Cons.prems(1) by (auto simp: dom_update)
  then have "\<exists>agg'. record_activations cache keys (AList.update key (acc @ [t]) agg) = Inr agg'"
    using Cons.prems(2) by (intro Cons.IH) simp_all
  then show ?case by (simp add: acc t)
qed

lemma attempts_0 [simp]: "attempts env ds pl ord 0 rng = []"
  by (simp add: attempts_def)

lemma attempts_Suc:
  "np_random_randint env 1000000 np_iinfo_max rng = (seed, rng') \<Longrightarrow>
   attempts env ds pl ord (Suc n) rng =
     generate_example env (n_states ds) seed pl ord # attempts env ds pl ord n rng'"
  by (simp add: attempts_def split: prod.splits)

lemma draw_seeds_Suc_state:
  "np_random_randint env 1000000 np_iinfo_max rng = (seed, rng') \<Longrightarrow>
   snd (draw_seeds (np_random_randint env 1000000 np_iinfo_max) (Suc n) rng) =
     snd (draw_seeds (np_random_randint env 1000000 np_iinfo_max) n rng')"
  by (simp split: prod.splits)

lemma length_attempts [simp]: "length (attempts env ds pl ord n rng) = n"
proof -
  have "length (fst (draw_seeds f n r)) = n" for f :: "'b \<Rightarrow> int \<times> 'b" and r
    by (induction n arbitrary: r) (auto split: prod.splits, metis fst_conv)
  then show ?thesis by (simp add: attempts_def)
qed

lemma sampling_loop_Inr:
  assumes "sampling_loop env m ds keys pl ord n (agg, graphs, rng) = Inr (agg', graphs', rng')"
  shows "graphs' = graphs @ filter (is_model_correct env m ds) (attempts env ds pl ord n rng) \<and>
    rng' = snd (draw_seeds (np_random_randint env 1000000 np_iinfo_max) n rng) \<and>
    map fst agg' = map fst agg \<and>
    (\<forall>g\<in>set (filter (is_model_correct env m ds) (attempts env ds pl ord n rng)).
       \<forall>k\<in>set keys. snd (get_example_cache env g m ds) k \<noteq> None) \<and>
    (\<forall>k. map_of agg' k =
       map_option (\<lambda>acc. acc @ concat (map
           (\<lambda>g. replicate (count_list keys k) (the (snd (get_example_cache env g m ds) k)))
           (filter (is_model_correct env m ds) (attempts env ds pl ord n rng))))
         (map_of agg k))"
  using assms
proof (induction n arbitrary: agg graphs rng)
  case 0
  then show ?case by (simp add: option.map_ident)
next
  case (Suc n)
  obtain seed rng1 where draw: "np_random_randint env 1000000 np_iinfo_max rng = (seed, rng1)"
    by (cases "np_random_randint env 1000000 np_iinfo_max rng")
  let ?g = "generate_example env (n_states ds) seed pl ord"
  note att = attempts_Suc [OF draw, of ds pl ord n]
  note st = draw_seeds_Suc_state [OF draw, of n]
  show ?case
  proof (cases "is_model_correct env m ds ?g")
    case False
    with Suc.prems draw
    have "sampling_loop env m ds keys pl ord n (agg, graphs, rng1) = Inr (agg', graphs', rng')"
      by simp
    from Suc.IH [OF this] False show ?thesis
      by (simp add: att st del: draw_seeds.simps)
  next
    case True
    obtain labels cache where gec: "get_example_cache env ?g m ds = (labels, cache)"
      by (cases "get_example_cache env ?g m ds")
    from Suc.prems draw True gec obtain agg1 where
      rec: "record_activations cache keys agg = Inr agg1" and
      rest: "sampling_loop env m ds keys pl ord n (agg1, graphs @ [?g], rng1) = Inr (agg', graphs', rng')"
      by (auto simp: bind_eq_Inr_iff)
    from record_activations_Inr [OF rec] have k1: "map fst agg1 = map fst agg"
      and p1: "\<forall>k\<in>set keys. cache k \<noteq> None"
      and v1: "\<And>k. map_of agg1 k =
        map_option (\<lambda>acc. acc @ replicate (count_list keys k) (the (cache k))) (map_of agg k)"
      by simp_all
    from Suc.IH [OF rest] True k1 p1 gec show ?thesis
      by (simp add: att st v1 option.map_comp comp_def del: draw_seeds.simps)
  qed
qed

lemma sampling_loop_ok:
  assumes "set keys \<subseteq> fst ` set agg"
    and "\<forall>g\<in>set (attempts env ds pl ord n rng). is_model_correct env m ds g \<longrightarrow>
        (\<forall>k\<in>set keys. snd (get_example_cache env g m ds) k \<noteq> None)"
  shows "\<exists>agg'. sampling_loop env m ds keys pl ord n (agg, graphs, rng) =
      Inr (agg', graphs @ filter (is_model_correct env m ds) (attempts env ds pl ord n rng),
           snd (draw_seeds (np_random_randint env 1000000 np_iinfo_max) n rng))"
  using assms
proof (induction n arbitrary: agg graphs rng)
  case 0
  then show ?case by simp
next
  case (Suc n)
  obtain seed rng1 where draw: "np_random_randint env 1000000 np_iinfo_max rng = (seed, rng1)"
    by (cases "np_random_randint env 1000000 np_iinfo_max rng")
  let ?g = "generate_example env (n_states ds) seed pl ord"
  note att = attempts_Suc [OF draw, of ds pl ord n]
  note st = draw_seeds_Suc_state [OF draw, of n]
  have later: "\<forall>g\<in>set (attempts env ds pl ord n rng1). is_model_correct env m ds g \<longrightarrow>
        (\<forall>k\<in>set keys. snd (get_example_cache env g m ds) k \<noteq> None)"
    using Suc.prems(2) by (simp add: att)
  show ?case
  proof (cases "is_model_correct env m ds ?g")
    case False
    with Suc.IH [OF Suc.prems(1) later, of graphs] draw show ?thesis
      by (simp add: att st del: draw_seeds.simps)
  next
    case True
    obtain labels cache where gec: "get_example_cache env ?g m ds = (labels, cache)"
      by (cases "get_example_cache env ?g m ds")
    have "\<forall>k\<in>set keys. cache k \<noteq> None"
      using Suc.prems(2) True gec by (simp add: att)
    then obtain agg1 where rec: "record_activations cache keys agg = Inr agg1"
      using record_activations_ok [OF Suc.prems(1)] by blast
    have "set keys \<subseteq> fst ` set agg1"
      using record_activations_Inr [OF rec] Suc.prems(1) by (metis list.set_map)
    from Suc.IH [OF this later, of "graphs @ [?g]"] draw True gec rec show ?thesis
      by (simp add: att st del: draw_seeds.simps)
  qed
qed

lemma sampling_loop_none:
  "filter (is_model_correct env m ds) (attempts env ds pl ord n rng) = [] \<Longrightarrow>
   sampling_loop env m ds keys pl ord n (agg, graphs, rng) =
     Inr (agg, graphs, snd (draw_seeds (np_random_randint env 1000000 np_iinfo_max) n rng))"
proof (induction n arbitrary: rng)
  case 0
  then show ?case by simp
next
  case (Suc n)
  obtain seed rng1 where draw: "np_random_randint env 1000000 np_iinfo_max rng = (seed, rng1)"
    by (cases "np_random_randint env 1000000 np_iinfo_max rng")
  from Suc.prems have no: "\<not> is_model_correct env m ds (generate_example env (n_states ds) seed pl ord)"
    and rest: "filter (is_model_correct env m ds) (attempts env ds pl ord n rng1) = []"
    by (auto simp: attempts_Suc [OF draw] split: if_splits)
  show ?case
    using Suc.IH [OF rest] no draw by (simp add: draw_seeds_Suc_state [OF draw] del: draw_seeds.simps)
qed

lemma count_list_distinct: "distinct xs \<Longrightarrow> x \<in> set xs \<Longrightarrow> count_list xs x = 1"
  by (induction xs) auto

section \<open>The calibrator's loops\<close>

lemma py_slice_range:
  assumes "0 \<le> a" "0 \<le> b" "b \<le> int (length xs)"
  shows "py_slice xs a b = map (\<lambda>p. xs ! p) [nat a..<nat b]"
proof (cases "a \<le> int (length xs)")
  case True
  have "take (nat (b - a)) (drop (nat a) xs) = map (\<lambda>p. xs ! p) [nat a..<nat b]"
  proof (rule nth_equalityI)
    show "length (take (nat (b - a)) (drop (nat a) xs)) = length (map (\<lambda>p. xs ! p) [nat a..<nat b])"
      using assms True by auto
  next
    fix i assume "i < length (take (nat (b - a)) (drop (nat a) xs))"
    then show "take (nat (b - a)) (drop (nat a) xs) ! i = map (\<lambda>p. xs ! p) [nat a..<nat b] ! i"
      using assms True by auto
  qed
  then show ?thesis
    using assms True by (simp add: py_slice_def Let_def min_def)
next
  case False
  then show ?thesis
    using assms by (simp add: py_slice_def Let_def min_def)
qed

lemma py_slice_shifted:
  assumes "1 \<le> a" "1 \<le> b" "b \<le> int (length xs)"
  shows "py_slice xs a b = map (\<lambda>p. xs ! (p + 1)) [nat (a - 1)..<nat (b - 1)]"
proof -
  have "[nat a..<nat b] = map Suc [nat (a - 1)..<nat (b - 1)]"
    using assms by (simp add: map_Suc_upt Suc_nat_eq_nat_zadd1)
  then show ?thesis
    using assms by (simp add: py_slice_range comp_def)
qed

lemma zip_concat:
  "length xss = length yss \<Longrightarrow> (\<And>i. i < length xss \<Longrightarrow> length (xss ! i) = length (yss ! i)) \<Longrightarrow>
   zip (concat xss) (concat yss) = concat (map2 zip xss yss)"
proof (induction xss yss rule: list_induct2)
  case Nil
  then show ?case by simp
next
  case (Cons xs xss ys yss)
  have "length xs = length ys"
    using Cons.prems [of 0] by simp
  moreover have "zip (concat xss) (concat yss) = concat (map2 zip xss yss)"
  proof (rule Cons.IH)
    fix i assume "i < length xss"
    then show "length (xss ! i) = length (yss ! i)"
      using Cons.prems [of "Suc i"] by simp
  qed
  ultimately show ?case by simp
qed

lemma py_index_Inr_nat: "py_index xs (int i) = Inr x \<Longrightarrow> i < length xs \<and> x = xs ! i"
  by (auto simp: py_index_def split: if_splits)

lemma py_index_Inr_0: "py_index xs 0 = Inr x \<Longrightarrow> xs \<noteq> [] \<and> x = xs ! 0"
  by (auto simp: py_index_def split: if_splits)

lemma map_of_in_keys: "map_of al k = Some v \<Longrightarrow> k \<in> set (map fst al)"
  using map_of_SomeD [of al k v] by (metis fst_conv image_eqI list.set_map)

lemma distinct_dict_from_keys_aux:
  "distinct (map fst d0) \<Longrightarrow> distinct (map fst (fold (\<lambda>ak d. AList.update ak v d) keys d0))"
  by (induction keys arbitrary: d0) (simp_all add: distinct_update)

lemma distinct_dict_from_keys: "distinct (map fst (dict_from_keys keys v))"
  by (simp add: dict_from_keys_def distinct_dict_from_keys_aux)

lemma append_streams_Inr:
  assumes "append_streams acts gidx s e keys X = Inr X'" and "distinct keys"
  shows "map fst X' = map fst X \<and>
    (\<forall>k. k \<notin> set keys \<longrightarrow> map_of X' k = map_of X k) \<and>
    (\<forall>k ts rows. k \<in> set keys \<longrightarrow> map_of acts k = Some ts \<longrightarrow> map_of X k = Some rows \<longrightarrow>
       map_of X' k = Some (rows @ [py_slice (ts ! gidx ! 0) (s - 1) (e - 1)]))"
  using assms
proof (induction keys arbitrary: X)
  case Nil
  then show ?case by simp
next
  case (Cons key keys)
  from Cons.prems(1) obtain ts t t0 rows where
    ts: "map_of acts key = Some ts" and t: "py_index ts (int gidx) = Inr t"
    and t0: "py_index t 0 = Inr t0" and rows: "map_of X key = Some rows"
    and rest: "append_streams acts gidx s e keys
        (AList.update key (rows @ [py_slice t0 (s - 1) (e - 1)]) X) = Inr X'"
    by (auto simp: bind_eq_Inr_iff Let_def split: option.splits)
  have val: "t0 = ts ! gidx ! 0"
    using py_index_Inr_nat [OF t] py_index_Inr_0 [OF t0] by simp
  have keys: "map fst (AList.update key (rows @ [py_slice t0 (s - 1) (e - 1)]) X) = map fst X"
    using map_of_in_keys [OF rows] by (simp add: update_keys)
  from Cons.prems(2) have notin: "key \<notin> set keys" and dist: "distinct keys"
    by simp_all
  note ih = Cons.IH [OF rest dist]
  have k': "map fst X' = map fst X"
    using ih keys by simp
  have out: "map_of X' k = map_of X k" if "k \<notin> set (key # keys)" for k
    using ih that by (simp add: update_conv')
  have this_key: "map_of X' key = Some (rows @ [py_slice (ts ! gidx ! 0) (s - 1) (e - 1)])"
    using ih notin val by (simp add: update_conv')
  have later: "map_of X' k = Some (rows' @ [py_slice (ts' ! gidx ! 0) (s - 1) (e - 1)])"
    if "k \<in> set keys" "map_of acts k = Some ts'" "map_of X k = Some rows'" for k ts' rows'
  proof -
    have "k \<noteq> key" using that(1) notin by blast
    then have "map_of (AList.update key (rows @ [py_slice t0 (s - 1) (e - 1)]) X) k = Some rows'"
      using that(3) by (simp add: update_conv')
    with ih that show ?thesis by blast
  qed
  from k' out this_key later ts rows show ?case
    by auto
qed

lemma filter_singletonD: "filter P xs = [x] \<Longrightarrow> x \<in> set xs \<and> P x"
proof -
  assume "filter P xs = [x]"
  then have "x \<in> set (filter P xs)" by simp
  then show ?thesis by (simp only: set_filter mem_Collect_eq)
qed

lemma example_span_Inr:
  assumes "example_span env ds g = Inr (s, e)"
  shows "2 \<le> s \<and> nat (s - 2) < length (butlast (tokenize ds g)) \<and>
    butlast (tokenize ds g) ! nat (s - 2) = start_token ds"
proof -
  let ?toks = "butlast (tokenize ds g)"
  from assms obtain i where i: "np_where_item ?toks (start_token ds) = Inr i" and s: "s = i + 2"
    by (auto simp: example_span_def Let_def bind_eq_Inr_iff)
  from i obtain j where j: "filter (\<lambda>i. ?toks ! i = start_token ds) [0..<length ?toks] = [j]"
    and ij: "i = int j"
    by (auto simp: np_where_item_def split: list.splits)
  from filter_singletonD [OF j] have "j < length ?toks" "?toks ! j = start_token ds"
    by simp_all
  with s ij show ?thesis by simp
qed

lemma upt_0_Suc_map: "map f [0..<Suc n] = f 0 # map (\<lambda>j. f (Suc j)) [0..<n]"
  by (simp add: upt_conv_Cons map_Suc_upt [symmetric] comp_def del: upt_Suc)

lemma calibration_loop_Inr:
  assumes "calibration_loop env ds acts gidx graphs (X, y) = Inr (X', y')"
    and "distinct (map fst X)"
    and "\<forall>j<length graphs. example_span env ds (graphs ! j) = Inr (S (gidx + j), E (gidx + j))"
  shows "map fst X' = map fst X \<and>
    y' = y @ map (\<lambda>j. py_slice (butlast (tokenize ds (graphs ! j))) (S (gidx + j)) (E (gidx + j)))
               [0..<length graphs] \<and>
    (\<forall>k ts rows. k \<in> set (map fst X) \<longrightarrow> map_of acts k = Some ts \<longrightarrow> map_of X k = Some rows \<longrightarrow>
       map_of X' k = Some (rows @ map (\<lambda>j. py_slice (ts ! (gidx + j) ! 0)
                                        (S (gidx + j) - 1) (E (gidx + j) - 1)) [0..<length graphs]))"
  using assms
proof (induction graphs arbitrary: gidx X y)
  case Nil
  then show ?case by simp
next
  case (Cons graph graphs)
  have span: "example_span env ds graph = Inr (S gidx, E gidx)"
    using Cons.prems(3) by force
  from Cons.prems(1) span obtain X1 where
    app: "append_streams acts gidx (S gidx) (E gidx) (map fst X) X = Inr X1"
    and rest: "calibration_loop env ds acts (Suc gidx) graphs
        (X1, y @ [py_slice (butlast (tokenize ds graph)) (S gidx) (E gidx)]) = Inr (X', y')"
    by (auto simp: calibration_step_def bind_eq_Inr_iff Let_def)
  note a = append_streams_Inr [OF app Cons.prems(2)]
  from a have k1: "map fst X1 = map fst X" by simp
  have d1: "distinct (map fst X1)"
    using Cons.prems(2) k1 by simp
  have s1: "\<forall>j<length graphs. example_span env ds (graphs ! j) = Inr (S (Suc gidx + j), E (Suc gidx + j))"
    using Cons.prems(3) by force
  note ih = Cons.IH [OF rest d1 s1]
  have keys: "map fst X' = map fst X"
    using ih k1 by simp
  have labels: "y' = y @ map (\<lambda>j. py_slice (butlast (tokenize ds ((graph # graphs) ! j)))
        (S (gidx + j)) (E (gidx + j))) [0..<length (graph # graphs)]"
    using ih by (simp add: upt_0_Suc_map del: upt_Suc)
  have rows: "map_of X' k = Some (rows @ map (\<lambda>j. py_slice (ts ! (gidx + j) ! 0)
        (S (gidx + j) - 1) (E (gidx + j) - 1)) [0..<length (graph # graphs)])"
    if "k \<in> set (map fst X)" "map_of acts k = Some ts" "map_of X k = Some rows" for k ts rows
  proof -
    have "map_of X1 k = Some (rows @ [py_slice (ts ! gidx ! 0) (S gidx - 1) (E gidx - 1)])"
      using a that by blast
    moreover have "k \<in> set (map fst X1)"
      using that(1) k1 by simp
    ultimately have "map_of X' k = Some ((rows @ [py_slice (ts ! gidx ! 0) (S gidx - 1) (E gidx - 1)])
        @ map (\<lambda>j. py_slice (ts ! (Suc gidx + j) ! 0) (S (Suc gidx + j) - 1) (E (Suc gidx + j) - 1))
            [0..<length graphs])"
      using ih that(2) by blast
    then show ?thesis
      by (simp add: upt_0_Suc_map del: upt_Suc)
  qed
  from keys labels rows show ?case by blast
qed

lemma torch_cat_Inr: "torch_cat ts = Inr rows \<Longrightarrow> rows = concat ts \<and> ts \<noteq> []"
  by (auto simp: torch_cat_def split: if_splits list.splits)

lemma cat_loop_Inr:
  "cat_loop X = Inr X' \<Longrightarrow> distinct (map fst X) \<Longrightarrow>
   map fst X' = map fst X \<and>
   (\<forall>k ts. map_of X k = Some ts \<longrightarrow> ts \<noteq> [] \<and> map_of X' k = Some (concat ts))"
proof (induction X arbitrary: X')
  case Nil
  then show ?case by simp
next
  case (Cons entry X)
  obtain key ts where entry: "entry = (key, ts)" by (cases entry)
  from Cons.prems(1) entry obtain rows X1 where cat: "torch_cat ts = Inr rows"
    and rest: "cat_loop X = Inr X1" and X': "X' = (key, rows) # X1"
    by (auto simp: bind_eq_Inr_iff)
  from Cons.prems(2) entry have notin: "key \<notin> set (map fst X)" and dist: "distinct (map fst X)"
    by simp_all
  have other: "map_of X k \<noteq> Some v" if "k = key" for k v
    using notin that map_of_in_keys [of X k v] by blast
  from Cons.IH [OF rest dist] torch_cat_Inr [OF cat] entry X' other show ?case
    by auto
qed

lemma keys_fold_update_fresh:
  "distinct (map fst d0 @ keys) \<Longrightarrow>
   map fst (fold (\<lambda>ak d. AList.update ak v d) keys d0) = map fst d0 @ keys"
proof (induction keys arbitrary: d0)
  case Nil
  then show ?case by simp
next
  case (Cons a keys)
  from Cons.prems have fresh: "a \<notin> set (map fst d0)"
    by auto
  then have k1: "map fst (AList.update a v d0) = map fst d0 @ [a]"
    by (simp add: update_keys)
  have "distinct (map fst (AList.update a v d0) @ keys)"
    using Cons.prems by (simp add: k1)
  from Cons.IH [OF this] show ?case
    by (simp add: k1)
qed

lemma keys_dict_from_keys_distinct: "distinct keys \<Longrightarrow> map fst (dict_from_keys keys v) = keys"
  using keys_fold_update_fresh [of "[]" keys v] by (simp add: dict_from_keys_def)

lemma distinct_tuned_lens_keys: "distinct (tuned_lens_keys m)"
  by (auto simp: tuned_lens_keys_def get_act_name_normalized_ln1_def distinct_map inj_on_def)

lemma tuned_lens_keys_nonempty: "tuned_lens_keys m \<noteq> []"
  by (simp add: tuned_lens_keys_def)

lemma calibration_loop_keys:
  "calibration_loop env ds acts gidx graphs (X, y) = Inr (X', y') \<Longrightarrow> distinct (map fst X) \<Longrightarrow>
   map fst X' = map fst X"
proof (induction graphs arbitrary: gidx X y)
  case Nil
  then show ?case by simp
next
  case (Cons graph graphs)
  from Cons.prems(1) obtain s e X1 y1 where
    app: "append_streams acts gidx s e (map fst X) X = Inr X1"
    and rest: "calibration_loop env ds acts (Suc gidx) graphs (X1, y1) = Inr (X', y')"
    by (auto simp: calibration_step_def bind_eq_Inr_iff Let_def)
  have k1: "map fst X1 = map fst X"
    using append_streams_Inr [OF app Cons.prems(2)] by simp
  with Cons.IH [OF rest] Cons.prems(2) show ?case by simp
qed

lemma calibration_dataset_keys:
  assumes "calibration_dataset env ds acts graphs = Inr (X, y)" and "distinct (map fst acts)"
  shows "map fst X = map fst acts"
proof -
  from assms(1) obtain X1 y1 where
    loop: "calibration_loop env ds acts 0 graphs (dict_from_keys (map fst acts) [], []) = Inr (X1, y1)"
    and cat: "cat_loop X1 = Inr X"
    by (auto simp: calibration_dataset_def bind_eq_Inr_iff)
  have "map fst X1 = map fst acts"
    using calibration_loop_keys [OF loop distinct_dict_from_keys]
    by (simp add: keys_dict_from_keys_distinct [OF assms(2)])
  moreover have "map fst X = map fst X1"
    using cat_loop_Inr [OF cat] calculation assms(2) by simp
  ultimately show ?thesis by simp
qed

lemma fit_translators_Inr:
  "fit_translators env X y tr0 = Inr tr \<Longrightarrow> distinct (map fst tr0 @ map fst X) \<Longrightarrow>
   map fst tr = map fst tr0 @ map fst X \<and>
   (\<forall>k. k \<notin> set (map fst X) \<longrightarrow> map_of tr k = map_of tr0 k) \<and>
   (\<forall>k rows. map_of X k = Some rows \<longrightarrow>
      (\<exists>W. linear_cls_probe_fit env False rows y = Inr W \<and> map_of tr k = Some (transpose W)))"
proof (induction X arbitrary: tr0)
  case Nil
  then show ?case by simp
next
  case (Cons entry X)
  obtain key rows where entry: "entry = (key, rows)" by (cases entry)
  from Cons.prems(1) entry obtain W where fit: "linear_cls_probe_fit env False rows y = Inr W"
    and rest: "fit_translators env X y (AList.update key (transpose W) tr0) = Inr tr"
    by (auto simp: bind_eq_Inr_iff)
  from Cons.prems(2) entry have fresh: "key \<notin> set (map fst tr0)" and notin: "key \<notin> set (map fst X)"
    and dist: "distinct (map fst tr0 @ map fst X)"
    by auto
  have k1: "map fst (AList.update key (transpose W) tr0) = map fst tr0 @ [key]"
    using fresh by (simp add: update_keys)
  have d1: "distinct (map fst (AList.update key (transpose W) tr0) @ map fst X)"
    using Cons.prems(2) entry by (simp add: k1)
  note ih = Cons.IH [OF rest d1]
  have keys: "map fst tr = map fst tr0 @ map fst (entry # X)"
    using ih k1 entry by simp
  have out: "map_of tr k = map_of tr0 k" if "k \<notin> set (map fst (entry # X))" for k
    using ih that entry by (simp add: update_conv')
  have this_key: "map_of tr key = Some (transpose W)"
    using ih notin by (simp add: update_conv')
  have nokey: "map_of X key = None"
    using notin by (simp add: map_of_eq_None_iff)
  from keys out this_key ih fit entry nokey show ?case
    by auto
qed

lemma transpose_orientation:
  assumes "W \<noteq> []" and "\<forall>v<length W. length (W ! v) = d"
  shows "length (transpose W) = d \<and> (\<forall>h<d. \<forall>v<length W. transpose W ! h ! v = W ! v ! h)"
proof -
  have "transpose W = map (\<lambda>h. map (\<lambda>v. W ! v ! h) [0..<length W]) [0..<d]"
    using assms by (intro transpose_rectangle) simp_all
  then show ?thesis by simp
qed

lemma draw_seeds_counter:
  assumes "\<And>r. snd (f r) = r + 1"
  shows "snd (draw_seeds f n rng) = rng + int n"
proof (induction n arbitrary: rng)
  case 0
  then show ?case by simp
next
  case (Suc n)
  obtain seed where "f rng = (seed, rng + 1)"
    using assms [of rng] by (cases "f rng") simp
  then have "snd (draw_seeds f (Suc n) rng) = snd (draw_seeds f n (rng + 1))"
    by (simp split: prod.splits)
  then show ?case
    by (simp add: Suc.IH)
qed

lemma alist_single:
  "map fst al = [k] \<Longrightarrow> map_of al k = Some v \<Longrightarrow> al = [(k, v)]"
  by (cases al) (auto split: if_splits)

lemma cat_loop_empty_entry: "cat_loop ((key, []) # X) = Inl RuntimeError"
  by (simp add: torch_cat_def)

section \<open>The lens decoder's loops\<close>

lemma lens_argmax_loop_cache:
  "lens_argmax_loop m ds lenses e layers (cache, outs) = Inr (cache', outs') \<Longrightarrow> cache' = cache"
proof (induction layers arbitrary: outs)
  case Nil
  then show ?case by simp
next
  case (Cons layer layers)
  from Cons.prems obtain row where
    "lens_argmax_loop m ds lenses e layers (cache, outs @ [row]) = Inr (cache', outs')"
    by (auto simp: bind_eq_Inr_iff)
  then show ?case by (rule Cons.IH)
qed

lemma lens_probs_loop_cache:
  "lens_probs_loop m lenses pos idx layers (cache, probs) = Inr (cache', probs') \<Longrightarrow> cache' = cache"
proof (induction layers arbitrary: probs)
  case Nil
  then show ?case by simp
next
  case (Cons layer layers)
  from Cons.prems obtain p where
    "lens_probs_loop m lenses pos idx layers (cache, probs @ [p]) = Inr (cache', probs')"
    by (auto simp: bind_eq_Inr_iff Let_def)
  then show ?case by (rule Cons.IH)
qed

lemma lens_projection_cong:
  assumes "n_layers m_b = n_layers m" and "W_U m_b = W_U m"
    and "cache_b (lens_act_name m layer) = cache (lens_act_name m layer)"
  shows "lens_projection m_b lenses cache_b layer = lens_projection m lenses cache layer"
  using assms
  by (cases "layer < n_layers m")
    (simp_all add: lens_projection_def lens_act_name_def cong: option.case_cong)

lemma map_sum_bind_cong:
  "(\<And>x. map_sum h f (g1 x) = map_sum h f (g2 x)) \<Longrightarrow>
   map_sum h f (bind r g1) = map_sum h f (bind r g2)"
  by (cases r) simp_all

lemma lens_argmax_loop_cong:
  assumes "n_layers m_b = n_layers m" and "W_U m_b = W_U m"
    and "\<forall>layer\<in>set layers. cache_b (lens_act_name m layer) = cache (lens_act_name m layer)"
  shows "map_sum id snd (lens_argmax_loop m_b ds lenses e layers (cache_b, outs)) =
         map_sum id snd (lens_argmax_loop m ds lenses e layers (cache, outs))"
  using assms(3)
proof (induction layers arbitrary: outs)
  case Nil
  then show ?case by simp
next
  case (Cons layer layers)
  have p: "lens_projection m_b lenses cache_b layer = lens_projection m lenses cache layer"
    using assms(1,2) Cons.prems by (intro lens_projection_cong) simp_all
  have ih: "map_sum id snd (lens_argmax_loop m_b ds lenses e layers (cache_b, outs')) =
      map_sum id snd (lens_argmax_loop m ds lenses e layers (cache, outs'))" for outs'
    using Cons.prems by (intro Cons.IH) simp
  show ?case
    unfolding lens_argmax_loop.simps p by (intro map_sum_bind_cong ih)
qed

lemma lens_probs_loop_cong:
  assumes "n_layers m_b = n_layers m" and "W_U m_b = W_U m"
    and "\<forall>layer\<in>set layers. cache_b (lens_act_name m layer) = cache (lens_act_name m layer)"
  shows "map_sum id snd (lens_probs_loop m_b lenses pos idx layers (cache_b, probs)) =
         map_sum id snd (lens_probs_loop m lenses pos idx layers (cache, probs))"
  using assms(3)
proof (induction layers arbitrary: probs)
  case Nil
  then show ?case by simp
next
  case (Cons layer layers)
  have p: "lens_projection m_b lenses cache_b layer = lens_projection m lenses cache layer"
    using assms(1,2) Cons.prems by (intro lens_projection_cong) simp_all
  have ih: "map_sum id snd (lens_probs_loop m_b lenses pos idx layers (cache_b, probs')) =
      map_sum id snd (lens_probs_loop m lenses pos idx layers (cache, probs'))" for probs'
    using Cons.prems by (intro Cons.IH) simp
  show ?case
    unfolding lens_probs_loop.simps p Let_def by (intro map_sum_bind_cong ih)
qed

lemma logit_lens_decode_cong:
  assumes "n_layers m_b = n_layers m" and "W_U m_b = W_U m"
    and "\<forall>layer\<in>set [1..<n_layers m + 1]. cache_b (lens_act_name m layer) = cache (lens_act_name m layer)"
  shows "map_sum id fst (logit_lens_decode m_b ds lenses labels e cache_b) =
         map_sum id fst (logit_lens_decode m ds lenses labels e cache)"
proof -
  note c = lens_argmax_loop_cong [OF assms, of ds lenses e "[]"]
  show ?thesis
  proof (cases "lens_argmax_loop m ds lenses e [1..<n_layers m + 1] (cache, [])")
    case (Inl err)
    with c have "\<exists>err'. lens_argmax_loop m_b ds lenses e [1..<n_layers m + 1] (cache_b, []) = Inl err' \<and> err' = err"
      by (cases "lens_argmax_loop m_b ds lenses e [1..<n_layers m + 1] (cache_b, [])") simp_all
    with Inl show ?thesis
      by (auto simp: logit_lens_decode_def assms(1))
  next
    case (Inr st)
    with c obtain st2 where "lens_argmax_loop m_b ds lenses e [1..<n_layers m + 1] (cache_b, []) = Inr st2"
      and "snd st2 = snd st"
      by (cases "lens_argmax_loop m_b ds lenses e [1..<n_layers m + 1] (cache_b, [])") simp_all
    with Inr show ?thesis
      by (simp add: logit_lens_decode_def assms(1) case_prod_unfold)
  qed
qed

lemma logit_lens_correct_probs_decode_cong:
  assumes "n_layers m_b = n_layers m" and "W_U m_b = W_U m"
    and "\<forall>layer\<in>set [1..<n_layers m + 1]. cache_b (lens_act_name m layer) = cache (lens_act_name m layer)"
  shows "map_sum id fst (logit_lens_correct_probs_decode m_b ds pos lenses labels cache_b) =
         map_sum id fst (logit_lens_correct_probs_decode m ds pos lenses labels cache)"
proof (cases "py_index labels (pos + 1)")
  case (Inl err)
  then show ?thesis by (simp add: logit_lens_correct_probs_decode_def)
next
  case tok: (Inr correct_token)
  show ?thesis
  proof (cases "tokens2idx ds correct_token")
    case None
    with tok show ?thesis by (simp add: logit_lens_correct_probs_decode_def)
  next
    case (Some idx)
    note c = lens_probs_loop_cong [OF assms, of lenses pos idx "[]"]
    show ?thesis
    proof (cases "lens_probs_loop m lenses pos idx [1..<n_layers m + 1] (cache, [])")
      case (Inl err)
      with c have "lens_probs_loop m_b lenses pos idx [1..<n_layers m + 1] (cache_b, []) = Inl err"
        by (cases "lens_probs_loop m_b lenses pos idx [1..<n_layers m + 1] (cache_b, [])") simp_all
      with Inl tok Some show ?thesis
        by (simp add: logit_lens_correct_probs_decode_def assms(1))
    next
      case (Inr st)
      with c obtain st2 where "lens_probs_loop m_b lenses pos idx [1..<n_layers m + 1] (cache_b, []) = Inr st2"
        and "snd st2 = snd st"
        by (cases "lens_probs_loop m_b lenses pos idx [1..<n_layers m + 1] (cache_b, [])") simp_all
      with Inr tok Some show ?thesis
        by (cases "py_index labels pos")
          (simp_all add: logit_lens_correct_probs_decode_def assms(1) case_prod_unfold)
    qed
  qed
qed

section \<open>Evaluating the concrete model\<close>

lemma toy_fields [simp]:
  "n_layers toy_model = 1"
  "embed toy_model toks = [map (\<lambda>t. [real_of_int t]) toks]"
  "block toy_model l = map (cumulative 0)"
  "unembed toy_model = map (map (\<lambda>r. [0, 0, sum_list r, - sum_list r]))"
  "W_U toy_model = [[0, 0, 1, - 1]]"
  by (simp_all add: toy_model_def)

lemma toy_idx2tokens [simp]: "idx2tokens toy_dataset = ['','', ''|'', ''a'', ''b'']"
  by (simp add: toy_dataset_def)

lemmas toy_eval = forward_def run_blocks_def logits_to_logit_diff_def index3_def py_index_def
  patched_run_def run_with_hooks_def get_act_name_resid_pre_def residual_stream_patching_hook_def
  run_with_cache_def resid_pre_at_def select_position_def assign_position_def broadcast_to_def

lemma toy_env_fields [simp]:
  "np_random_randint toy_env low high rng = (low + rng, rng + 1)"
  "generate_example toy_env n seed path_length order =
     (if seed = 1000000 then ''|aab,,'' else if seed = 1000002 then ''|ab,,,'' else ''|b,,,,'')"
  "is_model_correct toy_env m ds g \<longleftrightarrow> g \<noteq> ''|b,,,,''"
  "get_example_cache toy_env g m ds =
     (let toks = butlast (tokenize ds g)
      in (map (\<lambda>t. idx2tokens ds ! nat t) toks,
          (\<lambda>nm. if nm = Ln_final_normalized
                 then Some (run_blocks m [0..<n_layers m] (embed m toks)) else None)))"
  "num_last toy_env labels c =
     (let n = length (dropWhile (\<lambda>l. l = c) (rev labels))
      in if n = 0 then Inl IndexError else Inr (int n))"
  "linear_cls_probe_fit toy_env fit_intercept X y =
     (if length X \<noteq> length y then Inl ValueError
      else Inr (map (\<lambda>v. [sum_list (map (\<lambda>(r, l). if l = int v then sum_list r else 0) (zip X y))
                           + (if fit_intercept then 1 else 0)]) [0..<4]))"
  by (simp_all add: toy_env_def)

lemma toy_dataset_fields [simp]:
  "n_states toy_dataset = 2"
  "start_token toy_dataset = 1"
  "tokenize toy_dataset = map (\<lambda>c. if c = CHR '','' then 0 else if c = CHR ''|'' then 1
                            else if c = CHR ''a'' then 2 else 3)"
  "tokens2idx toy_dataset = map_of [('','', 0), (''|'', 1), (''a'', 2), (''b'', 3)]"
  by (simp_all add: toy_dataset_def)

lemma toy_aggregate_3:
  "aggregate_activations toy_env toy_model toy_dataset [Ln_final_normalized] 3 None ''backward'' 0 =
     Inr ([(Ln_final_normalized, [[[[1], [3], [5], [8], [8]]], [[[1], [3], [6], [6], [6]]]])],
          [''|aab,,'', ''|ab,,,''], 3)"
  by (simp add: aggregate_activations_def dict_from_keys_def numeral_3_eq_3 run_blocks_def Let_def)

lemma toy_attempts_3:
  "attempts toy_env toy_dataset None ''backward'' 3 0 = [''|aab,,'', ''|b,,,,'', ''|ab,,,'']"
  by (simp add: attempts_def numeral_3_eq_3)

lemma toy_calibration_dataset:
  "calibration_dataset toy_env toy_dataset
     [(Ln_final_normalized, [[[[1], [3], [5], [8], [8]]], [[[1], [3], [6], [6], [6]]]])]
     [''|aab,,'', ''|ab,,,''] =
   Inr ([(Ln_final_normalized, [[3], [5], [3]])], [2, 3, 3])"
  by (simp add: calibration_dataset_def dict_from_keys_def calibration_step_def example_span_def
      np_where_item_def py_index_def py_slice_def torch_cat_def np_concatenate_def Let_def)

lemma toy_fit:
  "fit_translators toy_env [(Ln_final_normalized, [[3], [5], [3]])] [2, 3, 3] [] =
   Inr [(Ln_final_normalized, [[0, 0, 3, 8]])]"
  by (simp add: upt_rec transpose.simps)

lemma toy_draw_state:
  "snd (draw_seeds (np_random_randint toy_env low high) n rng) = rng + int n"
  by (rule draw_seeds_counter) simp

lemma toy_attempts_late:
  "3 \<le> rng \<Longrightarrow>
   filter (is_model_correct toy_env m ds) (attempts toy_env ds pl ord n rng) = []"
proof (induction n arbitrary: rng)
  case 0
  then show ?case by simp
next
  case (Suc n)
  have draw: "np_random_randint toy_env 1000000 np_iinfo_max rng = (1000000 + rng, rng + 1)"
    by simp
  have rest: "filter (is_model_correct toy_env m ds) (attempts toy_env ds pl ord n (rng + 1)) = []"
    using Suc.prems by (intro Suc.IH) simp
  have bad: "\<not> is_model_correct toy_env m ds
      (generate_example toy_env (n_states ds) (1000000 + rng) pl ord)"
    using Suc.prems by simp
  show ?case
    unfolding attempts_Suc [OF draw] using rest bad by (simp del: toy_env_fields)
qed

lemma toy_accepted_16384:
  "filter (is_model_correct toy_env m ds) (attempts toy_env ds pl ord 16384 0) =
     [''|aab,,'', ''|ab,,,'']"
proof -
  have n: "(16384 :: nat) = Suc (Suc (Suc 16381))"
    by simp
  have d0: "np_random_randint toy_env 1000000 np_iinfo_max 0 = (1000000, 1)"
    and d1: "np_random_randint toy_env 1000000 np_iinfo_max 1 = (1000001, 2)"
    and d2: "np_random_randint toy_env 1000000 np_iinfo_max 2 = (1000002, 3)"
    by simp_all
  have "attempts toy_env ds pl ord 16384 0 =
      ''|aab,,'' # ''|b,,,,'' # ''|ab,,,'' # attempts toy_env ds pl ord 16381 3"
    unfolding n attempts_Suc [OF d0] attempts_Suc [OF d1] attempts_Suc [OF d2] by simp
  moreover have "filter (is_model_correct toy_env m ds) (attempts toy_env ds pl ord 16381 3) = []"
    by (rule toy_attempts_late) simp
  moreover have "is_model_correct toy_env m ds ''|aab,,''" "is_model_correct toy_env m ds ''|ab,,,''"
    "\<not> is_model_correct toy_env m ds ''|b,,,,''"
    by simp_all
  ultimately show ?thesis
    by (simp del: toy_env_fields)
qed

lemma toy_aggregate_16384:
  "aggregate_activations toy_env toy_model toy_dataset (tuned_lens_keys toy_model) 16384 None
     ''random'' 0 =
   Inr ([(Ln_final_normalized, [[[[1], [3], [5], [8], [8]]], [[[1], [3], [6], [6], [6]]]])],
        [''|aab,,'', ''|ab,,,''], 16384)"
proof -
  let ?keys = "[Ln_final_normalized]"
  have keys: "tuned_lens_keys toy_model = ?keys"
    by (simp add: tuned_lens_keys_def)
  have dom: "set ?keys \<subseteq> fst ` set (dict_from_keys ?keys ([] :: tensor3 list))"
    by (simp add: keys_dict_from_keys)
  have present: "\<forall>g\<in>set (attempts toy_env toy_dataset None ''random'' 16384 0).
      is_model_correct toy_env toy_model toy_dataset g \<longrightarrow>
      (\<forall>k\<in>set ?keys. snd (get_example_cache toy_env g toy_model toy_dataset) k \<noteq> None)"
    by (simp add: Let_def)
  from sampling_loop_ok [OF dom present, of "[]"] obtain agg where
    loop: "sampling_loop toy_env toy_model toy_dataset ?keys None ''random'' 16384
        (dict_from_keys ?keys [], [], 0) = Inr (agg, [''|aab,,'', ''|ab,,,''], 16384)"
    by (auto simp: toy_accepted_16384 toy_draw_state)
  note r = sampling_loop_Inr [OF loop]
  have "map fst agg = ?keys"
    using r by (simp add: keys_dict_from_keys_distinct)
  moreover have "map_of agg Ln_final_normalized =
      Some [[[[1], [3], [5], [8], [8]]], [[[1], [3], [6], [6], [6]]]]"
    using r by (simp add: toy_accepted_16384 map_of_dict_from_keys run_blocks_def Let_def)
  ultimately have "agg =
      [(Ln_final_normalized, [[[[1], [3], [5], [8], [8]]], [[[1], [3], [6], [6], [6]]]])]"
    by (rule alist_single)
  with loop show ?thesis
    by (simp add: aggregate_activations_def keys)
qed

lemma toy_calculate_tuned_lens:
  "calculate_tuned_lens toy_env toy_model toy_dataset 0 =
     Inr ([(Ln_final_normalized, [[0, 0, 3, 8]])], 16384)"
  by (simp add: calculate_tuned_lens_def toy_aggregate_16384 toy_calibration_dataset toy_fit
      del: fit_translators.simps toy_env_fields)

lemma toy_logit_lens:
  "\<exists>c. logit_lens toy_env ''|aab,,'' toy_model toy_dataset None =
     Inr (([''Current Input''], [(1, [])]), c)"
  by (simp add: logit_lens_def logit_lens_decode_def lens_projection_def lens_act_name_def
      matmul_def py_index_def py_slice_def run_blocks_def Let_def)

lemma toy_logit_lens_correct_probs:
  "\<exists>c. logit_lens_correct_probs toy_env ''|aab,,'' toy_model toy_dataset 1
       (Some [(Ln_final_normalized, [[0, 0, 0, 0]])]) =
     Inr ([1 / 4], c)"
  by (simp add: logit_lens_correct_probs_def logit_lens_correct_probs_decode_def
      lens_projection_def lens_act_name_def softmax_rows_def
      matmul_def py_index_def run_blocks_def Let_def)

section \<open>C1: the normalised score of every scanned cell\<close>

text \<open>
  C1. Whenever the clean and corrupted baseline metrics are computed (\<open>cd\<close>,
  \<open>kd\<close>) and every patched run yields a metric (\<open>pd L P\<close>), the divisor of
  the normalisation is not zero and the scan returns a grid, with no exception,
  whose entry at every layer \<open>L\<close> and position \<open>P\<close> is
  \<open>(pd L P - kd) / (cd - kd)\<close>, the denominator being replaced by \<open>1\<close> when
  \<open>cd - kd = 0\<close>; in that degenerate case the entry is the raw difference
  \<open>pd L P - kd\<close>.
\<close>

theorem activation_patching_normalized_scores:
  assumes clean: "logits_to_logit_diff clean_tokens corrupted_tokens
        (fst (run_with_cache m clean_tokens)) ci = Inr cd"
    and corrupted: "logits_to_logit_diff clean_tokens corrupted_tokens
        (forward m corrupted_tokens) ci = Inr kd"
    and positive: "bind (py_index clean_tokens ci) (py_index (idx2tokens ds)) = Inr pos_label"
    and negative: "bind (py_index corrupted_tokens ci) (py_index (idx2tokens ds)) = Inr neg_label"
    and patched: "\<And>L P. L < n_layers m \<Longrightarrow> P < length clean_tokens \<Longrightarrow>
        bind (patched_run m (snd (run_with_cache m clean_tokens)) corrupted_tokens L P)
          (\<lambda>patched_logits. logits_to_logit_diff clean_tokens corrupted_tokens patched_logits ci)
        = Inr (pd L P)"
  shows "normalize_ratio cd kd \<noteq> 0 \<and>
    (\<exists>res. activation_patching m ds clean_tokens corrupted_tokens ci = Inr res \<and>
      length res = n_layers m \<and>
      (\<forall>L<n_layers m. length (res ! L) = length clean_tokens \<and>
         (\<forall>P<length clean_tokens.
            res ! L ! P = (pd L P - kd) / (if cd - kd = 0 then 1 else cd - kd) \<and>
            (cd - kd = 0 \<longrightarrow> res ! L ! P = pd L P - kd))))"
proof -
  obtain res where run: "activation_patching m ds clean_tokens corrupted_tokens ci = Inr res"
    and len: "length res = n_layers m"
    and cells: "\<forall>L<n_layers m. length (res ! L) = length clean_tokens \<and>
         (\<forall>P<length clean_tokens. res ! L ! P = normalized_score cd kd (pd L P))"
    using activation_patching_cells [OF clean corrupted positive negative patched] by blast
  have "normalized_score cd kd x = (x - kd) / (if cd - kd = 0 then 1 else cd - kd)" for x
    by (simp add: normalized_score_def normalize_ratio_def Let_def)
  with run len cells normalize_ratio_nonzero [of cd kd] show ?thesis by auto
qed

theorem activation_patching_normalized_scores_witness:
  "(\<exists>res. activation_patching toy_model toy_dataset [2, 3] [3, 2] 1 = Inr res \<and>
      length res = 1 \<and> length (res ! 0) = 2 \<and> res ! 0 ! 0 = 1 \<and> res ! 0 ! 1 = 0) \<and>
   (\<exists>res. activation_patching toy_model toy_dataset [2, 3, 3] [3, 2, 2] 2 = Inr res \<and>
      length res = 1 \<and> length (res ! 0) = 3 \<and>
      res ! 0 ! 0 = 2 \<and> res ! 0 ! 1 = - 2 \<and> res ! 0 ! 2 = 0)"
proof
  let ?pd = "\<lambda>(L::nat) (P::nat). if P = 0 then - 4 else (- 6::real)"
  have clean: "logits_to_logit_diff [2, 3] [3, 2] (fst (run_with_cache toy_model [2, 3])) 1 = Inr (- 4)"
    and corrupted: "logits_to_logit_diff [2, 3] [3, 2] (forward toy_model [3, 2]) 1 = Inr (- 6)"
    and positive: "bind (py_index [2, 3] 1) (py_index (idx2tokens toy_dataset)) = Inr ''b''"
    and negative: "bind (py_index [3, 2] 1) (py_index (idx2tokens toy_dataset)) = Inr ''a''"
    by (simp_all add: toy_eval)
  have patched: "bind (patched_run toy_model (snd (run_with_cache toy_model [2, 3])) [3, 2] L P)
        (\<lambda>patched_logits. logits_to_logit_diff [2, 3] [3, 2] patched_logits 1) = Inr (?pd L P)"
    if "L < n_layers toy_model" "P < length [2, 3 :: int]" for L P
  proof -
    from that have "L = 0" "P = 0 \<or> P = Suc 0" by auto
    then show ?thesis by (auto simp: toy_eval)
  qed
  obtain res where run: "activation_patching toy_model toy_dataset [2, 3] [3, 2] 1 = Inr res"
    and len: "length res = n_layers toy_model"
    and cells: "\<forall>L<n_layers toy_model. length (res ! L) = length [2, 3 :: int] \<and>
         (\<forall>P<length [2, 3 :: int].
            res ! L ! P = (?pd L P - (- 6)) / (if - 4 - (- 6) = (0::real) then 1 else - 4 - (- 6)) \<and>
            (- 4 - (- 6) = (0::real) \<longrightarrow> res ! L ! P = ?pd L P - (- 6)))"
    using activation_patching_normalized_scores [OF clean corrupted positive negative patched]
    by blast
  have row: "length (res ! 0) = 2" and c0: "res ! 0 ! 0 = 1" and c1: "res ! 0 ! 1 = 0"
    using cells by (simp_all add: All_less_Suc numeral_2_eq_2)
  from run len row c0 c1
  show "\<exists>res. activation_patching toy_model toy_dataset [2, 3] [3, 2] 1 = Inr res \<and>
      length res = 1 \<and> length (res ! 0) = 2 \<and> res ! 0 ! 0 = 1 \<and> res ! 0 ! 1 = 0"
    by simp
next
  let ?pd = "\<lambda>(L::nat) (P::nat). if P = 0 then - 8 else if P = 1 then - 12 else (- 10::real)"
  have clean: "logits_to_logit_diff [2, 3, 3] [3, 2, 2] (fst (run_with_cache toy_model [2, 3, 3])) 2
        = Inr (- 10)"
    and corrupted: "logits_to_logit_diff [2, 3, 3] [3, 2, 2] (forward toy_model [3, 2, 2]) 2
        = Inr (- 10)"
    and positive: "bind (py_index [2, 3, 3] 2) (py_index (idx2tokens toy_dataset)) = Inr ''b''"
    and negative: "bind (py_index [3, 2, 2] 2) (py_index (idx2tokens toy_dataset)) = Inr ''a''"
    by (simp_all add: toy_eval)
  have patched: "bind (patched_run toy_model (snd (run_with_cache toy_model [2, 3, 3])) [3, 2, 2] L P)
        (\<lambda>patched_logits. logits_to_logit_diff [2, 3, 3] [3, 2, 2] patched_logits 2) = Inr (?pd L P)"
    if "L < n_layers toy_model" "P < length [2, 3, 3 :: int]" for L P
  proof -
    from that have "L = 0" "P = 0 \<or> P = Suc 0 \<or> P = Suc (Suc 0)" by auto
    then show ?thesis by (auto simp: toy_eval)
  qed
  obtain res where run: "activation_patching toy_model toy_dataset [2, 3, 3] [3, 2, 2] 2 = Inr res"
    and len: "length res = n_layers toy_model"
    and cells: "\<forall>L<n_layers toy_model. length (res ! L) = length [2, 3, 3 :: int] \<and>
         (\<forall>P<length [2, 3, 3 :: int].
            res ! L ! P = (?pd L P - (- 10)) / (if - 10 - (- 10) = (0::real) then 1 else - 10 - (- 10)) \<and>
            (- 10 - (- 10) = (0::real) \<longrightarrow> res ! L ! P = ?pd L P - (- 10)))"
    using activation_patching_normalized_scores [OF clean corrupted positive negative patched]
    by blast
  have row: "length (res ! 0) = 3"
    and c0: "res ! 0 ! 0 = 2" and c1: "res ! 0 ! 1 = - 2" and c2: "res ! 0 ! 2 = 0"
    using cells by (simp_all add: All_less_Suc numeral_3_eq_3 numeral_2_eq_2)
  from run len row c0 c1 c2
  show "\<exists>res. activation_patching toy_model toy_dataset [2, 3, 3] [3, 2, 2] 2 = Inr res \<and>
      length res = 1 \<and> length (res ! 0) = 3 \<and>
      res ! 0 ! 0 = 2 \<and> res ! 0 ! 1 = - 2 \<and> res ! 0 ! 2 = 0"
    by simp
qed

section \<open>C2: the baseline metric reads one logit row at two token ids\<close>

text \<open>
  C2. For equal-length clean and corrupted sequences and a comparison position
  \<open>ci\<close> with \<open>1 \<le> ci < length\<close>, on logits that have a batch entry 0, a row
  \<open>ci - 1\<close> and a column for both token ids, the metric is
  \<open>logits[0, ci-1, clean[ci]] - logits[0, ci-1, corrupted[ci]]\<close>.
\<close>

theorem logits_to_logit_diff_value:
  assumes len: "length clean_tokens = length corrupted_tokens"
    and ci: "1 \<le> ci" "ci < int (length clean_tokens)"
    and batch: "logits \<noteq> []"
    and rows: "ci - 1 < int (length (logits ! 0))"
    and correct: "0 \<le> clean_tokens ! nat ci"
      "clean_tokens ! nat ci < int (length (logits ! 0 ! nat (ci - 1)))"
    and incorrect: "0 \<le> corrupted_tokens ! nat ci"
      "corrupted_tokens ! nat ci < int (length (logits ! 0 ! nat (ci - 1)))"
  shows "logits_to_logit_diff clean_tokens corrupted_tokens logits ci =
           Inr (logits ! 0 ! nat (ci - 1) ! nat (clean_tokens ! nat ci)
              - logits ! 0 ! nat (ci - 1) ! nat (corrupted_tokens ! nat ci))"
proof -
  have c: "py_index clean_tokens ci = Inr (clean_tokens ! nat ci)"
    using ci by (simp add: py_index_in_range)
  have k: "py_index corrupted_tokens ci = Inr (corrupted_tokens ! nat ci)"
    using ci len by (simp add: py_index_in_range)
  have b0: "py_index logits 0 = Inr (logits ! 0)"
    using batch by (simp add: py_index_def)
  have r: "py_index (logits ! 0) (ci - 1) = Inr (logits ! 0 ! nat (ci - 1))"
    using ci rows by (simp add: py_index_in_range)
  have a: "index3 logits 0 (ci - 1) (clean_tokens ! nat ci) =
             Inr (logits ! 0 ! nat (ci - 1) ! nat (clean_tokens ! nat ci))"
    using correct by (simp add: index3_def b0 r py_index_in_range)
  have b: "index3 logits 0 (ci - 1) (corrupted_tokens ! nat ci) =
             Inr (logits ! 0 ! nat (ci - 1) ! nat (corrupted_tokens ! nat ci))"
    using incorrect by (simp add: index3_def b0 r py_index_in_range)
  show ?thesis
    by (simp add: logits_to_logit_diff_def c k a b)
qed

theorem logits_to_logit_diff_value_witness:
  "logits_to_logit_diff [2, 1, 0] [2, 2, 0] [[[1, 7, 3], [0, 0, 0], [0, 0, 0]]] 1 = Inr 4"
proof -
  have "logits_to_logit_diff [2, 1, 0] [2, 2, 0] [[[1, 7, 3], [0, 0, 0], [0, 0, 0]]] 1 =
          Inr ([[[1, 7, 3], [0, 0, 0], [0, 0, 0]]] ! 0 ! nat (1 - 1) ! nat ([2, 1, 0] ! nat 1)
             - [[[1, 7, 3], [0, 0, 0], [0, 0, 0]]] ! 0 ! nat (1 - 1) ! nat ([2, 2, 0] ! nat 1))"
    by (rule logits_to_logit_diff_value) simp_all
  then show ?thesis by simp
qed

section \<open>C3: one hook, one layer, one position\<close>

text \<open>
  C3. In the iteration for layer \<open>L\<close> and position \<open>P\<close> the forward pass runs on
  the corrupted sequence with the single hook registered at the residual-pre point of
  layer \<open>L\<close>. The hook receives the residual stream of the plain corrupted pass
  entering block \<open>L\<close>, and returns it with position \<open>P\<close> replaced by the clean
  cache's value at the same point and position and with every other position
  unchanged; blocks \<open>L\<close> and later then run on the result, with no further
  intervention.
\<close>

theorem patched_run_single_override:
  assumes L: "L < n_layers m"
    and batch: "length (resid_pre_at m clean_tokens L) = length (resid_pre_at m corrupted_tokens L)"
    and shape: "\<forall>b<length (resid_pre_at m corrupted_tokens L).
        P < length (resid_pre_at m corrupted_tokens L ! b) \<and>
        P < length (resid_pre_at m clean_tokens L ! b) \<and>
        length (resid_pre_at m clean_tokens L ! b ! P) =
          length (resid_pre_at m corrupted_tokens L ! b ! P)"
  shows "\<exists>patched.
      residual_stream_patching_hook (snd (run_with_cache m clean_tokens))
        (resid_pre_at m corrupted_tokens L) (get_act_name_resid_pre L) P = Inr patched \<and>
      length patched = length (resid_pre_at m corrupted_tokens L) \<and>
      (\<forall>b<length patched.
         length (patched ! b) = length (resid_pre_at m corrupted_tokens L ! b) \<and>
         (\<forall>p<length (patched ! b).
            patched ! b ! p =
              (if p = P then resid_pre_at m clean_tokens L ! b ! P
               else resid_pre_at m corrupted_tokens L ! b ! p))) \<and>
      patched_run m (snd (run_with_cache m clean_tokens)) corrupted_tokens L P =
        Inr (unembed m (run_blocks m [Suc L..<n_layers m] (block m L patched)))"
proof -
  let ?r = "resid_pre_at m corrupted_tokens L"
  let ?c = "resid_pre_at m clean_tokens L"
  let ?cache = "snd (run_with_cache m clean_tokens)"
  let ?patched = "map2 (\<lambda>rb cb. rb[P := cb ! P]) ?r ?c"
  have hook: "residual_stream_patching_hook ?cache ?r (Resid_pre L) P = Inr ?patched"
    using L batch shape by (intro patching_hook_ok) (simp_all add: run_with_cache_resid_pre)
  have len: "length ?patched = length ?r"
    using batch by simp
  have cells: "length (?patched ! b) = length (?r ! b) \<and>
      (\<forall>p<length (?patched ! b).
         ?patched ! b ! p = (if p = P then ?c ! b ! P else ?r ! b ! p))"
    if "b < length ?patched" for b
    using that batch shape by (simp add: nth_list_update)
  have run: "patched_run m ?cache corrupted_tokens L P =
      Inr (unembed m (run_blocks m [Suc L..<n_layers m] (block m L ?patched)))"
    using L hook by (simp add: patched_run_def get_act_name_resid_pre_def run_with_hooks_single)
  from hook len cells run show ?thesis
    unfolding get_act_name_resid_pre_def by blast
qed

theorem patched_run_single_override_witness:
  "residual_stream_patching_hook (snd (run_with_cache toy_model [2, 3]))
      (resid_pre_at toy_model [3, 2] 0) (get_act_name_resid_pre 0) 1 = Inr [[[3], [3]]] \<and>
   resid_pre_at toy_model [3, 2] 0 = [[[3], [2]]] \<and>
   resid_pre_at toy_model [2, 3] 0 = [[[2], [3]]] \<and>
   patched_run toy_model (snd (run_with_cache toy_model [2, 3])) [3, 2] 0 1 =
      Inr (unembed toy_model (run_blocks toy_model [Suc 0..<n_layers toy_model]
        (block toy_model 0 [[[3], [3]]])))"
proof -
  have r: "resid_pre_at toy_model [3, 2] 0 = [[[3], [2]]]"
    and c: "resid_pre_at toy_model [2, 3] 0 = [[[2], [3]]]"
    by (simp_all add: resid_pre_at_def run_blocks_def)
  have L: "0 < n_layers toy_model"
    and batch: "length (resid_pre_at toy_model [2, 3] 0) = length (resid_pre_at toy_model [3, 2] 0)"
    by (simp_all add: r c)
  have shape: "\<forall>b<length (resid_pre_at toy_model [3, 2] 0).
      1 < length (resid_pre_at toy_model [3, 2] 0 ! b) \<and>
      1 < length (resid_pre_at toy_model [2, 3] 0 ! b) \<and>
      length (resid_pre_at toy_model [2, 3] 0 ! b ! 1) =
        length (resid_pre_at toy_model [3, 2] 0 ! b ! 1)"
    by (simp add: r c)
  obtain patched where
    hook: "residual_stream_patching_hook (snd (run_with_cache toy_model [2, 3]))
        (resid_pre_at toy_model [3, 2] 0) (get_act_name_resid_pre 0) 1 = Inr patched"
    and len: "length patched = length (resid_pre_at toy_model [3, 2] 0)"
    and cells: "\<forall>b<length patched.
         length (patched ! b) = length (resid_pre_at toy_model [3, 2] 0 ! b) \<and>
         (\<forall>p<length (patched ! b).
            patched ! b ! p =
              (if p = 1 then resid_pre_at toy_model [2, 3] 0 ! b ! 1
               else resid_pre_at toy_model [3, 2] 0 ! b ! p))"
    and run: "patched_run toy_model (snd (run_with_cache toy_model [2, 3])) [3, 2] 0 1 =
        Inr (unembed toy_model (run_blocks toy_model [Suc 0..<n_layers toy_model]
          (block toy_model 0 patched)))"
    using patched_run_single_override [OF L batch shape] by (elim exE conjE) (rule that; assumption)
  have "patched = [[[3], [3]]]"
    using hook by (simp add: toy_eval)
  with hook run r c show ?thesis by simp
qed

section \<open>C4: lens decoding reads the cache and nothing else of the model\<close>

text \<open>
  C4. Both decoders (argmax mode and probability mode) leave the activation cache
  as the example's forward pass produced it: the cache after the call is the cache
  \<^verbatim>\<open>get_example_cache\<close> returned. And the decoding of a given cache does not
  run the model: its result is the same for any two models with the same number of
  layers and the same output-unembedding matrix, whatever their forward passes
  compute, and for any two caches that agree at the probe points the decoder reads.
\<close>

theorem lens_decoding_pure:
  "(logit_lens env pred m ds lenses = Inr (table, c) \<longrightarrow>
      c = snd (get_example_cache env pred m ds)) \<and>
   (logit_lens_correct_probs env pred m ds position lenses = Inr (probs, c') \<longrightarrow>
      c' = snd (get_example_cache env pred m ds)) \<and>
   (n_layers m_b = n_layers m \<and> W_U m_b = W_U m \<and>
    (\<forall>layer\<in>set [1..<n_layers m + 1].
       cache_b (lens_act_name m layer) = cache (lens_act_name m layer)) \<longrightarrow>
      map_sum id fst (logit_lens_decode m_b ds lenses labels end_idx cache_b) =
        map_sum id fst (logit_lens_decode m ds lenses labels end_idx cache) \<and>
      map_sum id fst (logit_lens_correct_probs_decode m_b ds position lenses labels cache_b) =
        map_sum id fst (logit_lens_correct_probs_decode m ds position lenses labels cache))"
proof (intro conjI impI)
  assume run: "logit_lens env pred m ds lenses = Inr (table, c)"
  obtain labels0 cache0 where gec: "get_example_cache env pred m ds = (labels0, cache0)"
    by (cases "get_example_cache env pred m ds")
  from run gec obtain e outs where
    "lens_argmax_loop m ds lenses e [1..<n_layers m + 1] (cache0, []) = Inr (c, outs)"
    by (auto simp: logit_lens_def logit_lens_decode_def bind_eq_Inr_iff)
  then have "c = cache0"
    by (rule lens_argmax_loop_cache)
  with gec show "c = snd (get_example_cache env pred m ds)"
    by simp
next
  assume run: "logit_lens_correct_probs env pred m ds position lenses = Inr (probs, c')"
  obtain labels0 cache0 where gec: "get_example_cache env pred m ds = (labels0, cache0)"
    by (cases "get_example_cache env pred m ds")
  from run gec obtain idx where
    "lens_probs_loop m lenses position idx [1..<n_layers m + 1] (cache0, []) = Inr (c', probs)"
    by (auto simp: logit_lens_correct_probs_def logit_lens_correct_probs_decode_def
        bind_eq_Inr_iff split: option.splits)
  then have "c' = cache0"
    by (rule lens_probs_loop_cache)
  with gec show "c' = snd (get_example_cache env pred m ds)"
    by simp
next
  assume "n_layers m_b = n_layers m \<and> W_U m_b = W_U m \<and>
    (\<forall>layer\<in>set [1..<n_layers m + 1].
       cache_b (lens_act_name m layer) = cache (lens_act_name m layer))"
  then show "map_sum id fst (logit_lens_decode m_b ds lenses labels end_idx cache_b) =
        map_sum id fst (logit_lens_decode m ds lenses labels end_idx cache)"
    by (intro logit_lens_decode_cong) simp_all
next
  assume "n_layers m_b = n_layers m \<and> W_U m_b = W_U m \<and>
    (\<forall>layer\<in>set [1..<n_layers m + 1].
       cache_b (lens_act_name m layer) = cache (lens_act_name m layer))"
  then show "map_sum id fst (logit_lens_correct_probs_decode m_b ds position lenses labels cache_b) =
        map_sum id fst (logit_lens_correct_probs_decode m ds position lenses labels cache)"
    by (intro logit_lens_correct_probs_decode_cong) simp_all
qed

theorem lens_decoding_pure_witness:
  "logit_lens toy_env ''|aab,,'' toy_model toy_dataset None =
     Inr (([''Current Input''], [(1, [])]),
          snd (get_example_cache toy_env ''|aab,,'' toy_model toy_dataset)) \<and>
   logit_lens_correct_probs toy_env ''|aab,,'' toy_model toy_dataset 1
       (Some [(Ln_final_normalized, [[0, 0, 0, 0]])]) =
     Inr ([1 / 4], snd (get_example_cache toy_env ''|aab,,'' toy_model toy_dataset)) \<and>
   map_sum id fst (logit_lens_decode (toy_model\<lparr>block := \<lambda>l x. x\<rparr>) toy_dataset None
       [''|'', ''a'', ''a'', ''b'', '',''] 4
       (snd (get_example_cache toy_env ''|aab,,'' toy_model toy_dataset))) =
     map_sum id fst (logit_lens_decode toy_model toy_dataset None
       [''|'', ''a'', ''a'', ''b'', '',''] 4
       (snd (get_example_cache toy_env ''|aab,,'' toy_model toy_dataset))) \<and>
   map_sum id fst (logit_lens_correct_probs_decode (toy_model\<lparr>block := \<lambda>l x. x\<rparr>) toy_dataset 1
       (Some [(Ln_final_normalized, [[0, 0, 0, 0]])]) [''|'', ''a'', ''a'', ''b'', '','']
       (snd (get_example_cache toy_env ''|aab,,'' toy_model toy_dataset))) =
     map_sum id fst (logit_lens_correct_probs_decode toy_model toy_dataset 1
       (Some [(Ln_final_normalized, [[0, 0, 0, 0]])]) [''|'', ''a'', ''a'', ''b'', '','']
       (snd (get_example_cache toy_env ''|aab,,'' toy_model toy_dataset)))"
proof -
  let ?cache = "snd (get_example_cache toy_env ''|aab,,'' toy_model toy_dataset)"
  let ?lens = "Some [(Ln_final_normalized, [[0, 0, 0, 0 :: real]])]"
  let ?labels = "[''|'', ''a'', ''a'', ''b'', '','']"
  let ?m2 = "toy_model\<lparr>block := \<lambda>l x. x\<rparr>"
  obtain c where argmax: "logit_lens toy_env ''|aab,,'' toy_model toy_dataset None =
      Inr (([''Current Input''], [(1, [])]), c)"
    using toy_logit_lens by blast
  obtain c' where probs: "logit_lens_correct_probs toy_env ''|aab,,'' toy_model toy_dataset 1 ?lens =
      Inr ([1 / 4], c')"
    using toy_logit_lens_correct_probs by blast
  have same: "n_layers ?m2 = n_layers toy_model \<and> W_U ?m2 = W_U toy_model \<and>
    (\<forall>layer\<in>set [1..<n_layers toy_model + 1].
       ?cache (lens_act_name toy_model layer) = ?cache (lens_act_name toy_model layer))"
    by simp
  note inst1 = lens_decoding_pure [where env = toy_env and pred = "''|aab,,''" and m = toy_model
      and ds = toy_dataset and lenses = None and table = "([''Current Input''], [(1, [])])"
      and c = c and m_b = ?m2 and cache_b = ?cache and cache = ?cache and labels = ?labels
      and end_idx = 4]
  note inst2 = lens_decoding_pure [where env = toy_env and pred = "''|aab,,''" and m = toy_model
      and ds = toy_dataset and lenses = ?lens and position = 1 and probs = "[1 / 4]"
      and c' = c' and m_b = ?m2 and cache_b = ?cache and cache = ?cache and labels = ?labels]
  from inst1 argmax have "c = ?cache" by blast
  moreover from inst2 probs have "c' = ?cache" by blast
  moreover from inst1 same have "map_sum id fst (logit_lens_decode ?m2 toy_dataset None ?labels 4 ?cache) =
      map_sum id fst (logit_lens_decode toy_model toy_dataset None ?labels 4 ?cache)"
    by blast
  moreover from inst2 same have "map_sum id fst
        (logit_lens_correct_probs_decode ?m2 toy_dataset 1 ?lens ?labels ?cache) =
      map_sum id fst (logit_lens_correct_probs_decode toy_model toy_dataset 1 ?lens ?labels ?cache)"
    by blast
  ultimately show ?thesis
    using argmax probs by simp
qed

section \<open>C5: identical clean and corrupted sequences\<close>

text \<open>
  C5. When the clean and the corrupted sequence are the same sequence (and the
  baseline metric is computable on it), the divisor of the normalisation is \<open>1\<close>,
  never zero; the scan returns a grid; every patched forward pass returns the logits
  of the plain forward pass on that sequence; and every score is \<open>0\<close>.
\<close>

theorem identical_pair_patching_no_effect:
  assumes metric: "logits_to_logit_diff toks toks (forward m toks) ci = Inr d"
    and label: "bind (py_index toks ci) (py_index (idx2tokens ds)) = Inr lab"
    and shape: "\<forall>L<n_layers m. \<forall>b<length (resid_pre_at m toks L).
        length toks \<le> length (resid_pre_at m toks L ! b)"
  shows "normalize_ratio d d = 1 \<and>
    (\<exists>res. activation_patching m ds toks toks ci = Inr res \<and> length res = n_layers m \<and>
      (\<forall>L<n_layers m. length (res ! L) = length toks \<and>
         (\<forall>P<length toks.
            patched_run m (snd (run_with_cache m toks)) toks L P = Inr (forward m toks) \<and>
            res ! L ! P = 0)))"
proof -
  have noop: "patched_run m (snd (run_with_cache m toks)) toks L P = Inr (forward m toks)"
    if "L < n_layers m" "P < length toks" for L P
  proof (rule patched_run_same_tokens [OF that(1)])
    fix b assume "b < length (resid_pre_at m toks L)"
    then show "P < length (resid_pre_at m toks L ! b)"
      using shape that by fastforce
  qed
  have "\<exists>res. activation_patching m ds toks toks ci = Inr res \<and> length res = n_layers m \<and>
      (\<forall>L<n_layers m. length (res ! L) = length toks \<and>
         (\<forall>P<length toks. res ! L ! P = normalized_score d d ((\<lambda>L P. d) L P)))"
  proof (rule activation_patching_cells [OF _ metric label label])
    show "logits_to_logit_diff toks toks (fst (run_with_cache m toks)) ci = Inr d"
      using metric by (simp add: run_with_cache_def)
  next
    fix L P assume "L < n_layers m" "P < length toks"
    then show "bind (patched_run m (snd (run_with_cache m toks)) toks L P)
        (\<lambda>patched_logits. logits_to_logit_diff toks toks patched_logits ci) = Inr d"
      using noop metric by simp
  qed
  moreover have "normalized_score d d d = 0"
    by (simp add: normalized_score_def)
  moreover have "normalize_ratio d d = 1"
    by (simp add: normalize_ratio_def)
  ultimately show ?thesis
    using noop by auto
qed

theorem identical_pair_patching_no_effect_witness:
  "normalize_ratio 0 0 = 1 \<and>
   (\<exists>res. activation_patching toy_model toy_dataset [2, 3] [2, 3] 1 = Inr res \<and>
      length res = 1 \<and> length (res ! 0) = 2 \<and>
      patched_run toy_model (snd (run_with_cache toy_model [2, 3])) [2, 3] 0 0 =
        Inr (forward toy_model [2, 3]) \<and>
      patched_run toy_model (snd (run_with_cache toy_model [2, 3])) [2, 3] 0 1 =
        Inr (forward toy_model [2, 3]) \<and>
      res ! 0 ! 0 = 0 \<and> res ! 0 ! 1 = 0)"
proof -
  have metric: "logits_to_logit_diff [2, 3] [2, 3] (forward toy_model [2, 3]) 1 = Inr 0"
    and label: "bind (py_index [2, 3] 1) (py_index (idx2tokens toy_dataset)) = Inr ''b''"
    by (simp_all add: toy_eval)
  have shape: "\<forall>L<n_layers toy_model. \<forall>b<length (resid_pre_at toy_model [2, 3] L).
      length [2, 3 :: int] \<le> length (resid_pre_at toy_model [2, 3] L ! b)"
    by (simp add: toy_eval)
  have ratio: "normalize_ratio 0 0 = 1"
    using identical_pair_patching_no_effect [OF metric label shape] by blast
  obtain res where run: "activation_patching toy_model toy_dataset [2, 3] [2, 3] 1 = Inr res"
    and len: "length res = n_layers toy_model"
    and cells: "\<forall>L<n_layers toy_model. length (res ! L) = length [2, 3 :: int] \<and>
         (\<forall>P<length [2, 3 :: int].
            patched_run toy_model (snd (run_with_cache toy_model [2, 3])) [2, 3] L P =
              Inr (forward toy_model [2, 3]) \<and>
            res ! L ! P = 0)"
    using identical_pair_patching_no_effect [OF metric label shape] by blast
  have "length (res ! 0) = 2"
    and "patched_run toy_model (snd (run_with_cache toy_model [2, 3])) [2, 3] 0 0 =
        Inr (forward toy_model [2, 3])"
    and "patched_run toy_model (snd (run_with_cache toy_model [2, 3])) [2, 3] 0 1 =
        Inr (forward toy_model [2, 3])"
    and "res ! 0 ! 0 = 0" and "res ! 0 ! 1 = 0"
    using cells by (simp_all add: All_less_Suc numeral_2_eq_2)
  with ratio run len show ?thesis by simp
qed

section \<open>C6: training rows and labels\<close>

text \<open>
  C6. Let the calibration dataset be built from aggregated activations and accepted
  instances, and let every instance's end index lie within its token sequence and
  within its activation's positions. Then for every probe point the training rows
  and the training labels have the same length and, paired in order, are exactly:
  for each instance in order, for each position \<open>p\<close> from the one after the start
  marker up to (excluding) the end index minus one, the residual-stream vector at
  \<open>p\<close> with the token id at \<open>p + 1\<close>. The start marker stands two places
  before the start index.
\<close>

theorem calibration_rows_labels_aligned:
  assumes run: "calibration_dataset env ds acts graphs = Inr (X, y)"
    and key: "map_of acts key = Some ts"
    and spans: "\<forall>i<length graphs. example_span env ds (graphs ! i) = Inr (start_idx i, end_idx i)"
    and wf: "\<forall>i<length graphs. 1 \<le> end_idx i \<and>
        end_idx i \<le> int (length (butlast (tokenize ds (graphs ! i)))) \<and>
        end_idx i - 1 \<le> int (length (ts ! i ! 0))"
  shows "(\<forall>i<length graphs. 2 \<le> start_idx i \<and>
        butlast (tokenize ds (graphs ! i)) ! nat (start_idx i - 2) = start_token ds) \<and>
    (\<exists>rows. map_of X key = Some rows \<and> length rows = length y \<and>
       zip rows y = concat (map (\<lambda>i.
           map (\<lambda>p. (ts ! i ! 0 ! p, butlast (tokenize ds (graphs ! i)) ! (p + 1)))
             [nat (start_idx i - 1)..<nat (end_idx i - 1)])
         [0..<length graphs]))"
proof -
  let ?toks = "\<lambda>i. butlast (tokenize ds (graphs ! i))"
  let ?P = "\<lambda>i. [nat (start_idx i - 1)..<nat (end_idx i - 1)]"
  let ?rs = "\<lambda>i. map (\<lambda>p. ts ! i ! 0 ! p) (?P i)"
  let ?ls = "\<lambda>i. map (\<lambda>p. ?toks i ! (p + 1)) (?P i)"
  have marker: "2 \<le> start_idx i \<and> ?toks i ! nat (start_idx i - 2) = start_token ds"
    if "i < length graphs" for i
    using example_span_Inr [of env ds "graphs ! i" "start_idx i" "end_idx i"] spans that by simp
  from run obtain X1 y1 where
    loop: "calibration_loop env ds acts 0 graphs (dict_from_keys (map fst acts) [], []) = Inr (X1, y1)"
    and cat: "cat_loop X1 = Inr X" and npc: "np_concatenate y1 = Inr y"
    by (auto simp: calibration_dataset_def bind_eq_Inr_iff)
  have spans0: "\<forall>j<length graphs. example_span env ds (graphs ! j) = Inr (start_idx (0 + j), end_idx (0 + j))"
    using spans by simp
  note l = calibration_loop_Inr [OF loop distinct_dict_from_keys spans0]
  have key_in: "key \<in> set (map fst acts)"
    using key by (rule map_of_in_keys)
  have y1: "y1 = map (\<lambda>i. py_slice (?toks i) (start_idx i) (end_idx i)) [0..<length graphs]"
    using l by simp
  have "key \<in> set (map fst (dict_from_keys (map fst acts) ([] :: real list list list)))"
    using key_in keys_dict_from_keys [of "map fst acts" "[] :: real list list list"] by simp
  moreover have "map_of (dict_from_keys (map fst acts) ([] :: real list list list)) key = Some []"
    using key_in by (simp add: map_of_dict_from_keys)
  ultimately have X1: "map_of X1 key =
      Some (map (\<lambda>i. py_slice (ts ! i ! 0) (start_idx i - 1) (end_idx i - 1)) [0..<length graphs])"
    using l key by force
  have d1: "distinct (map fst X1)"
    using l distinct_dict_from_keys [of "map fst acts" "[] :: real list list list"] by simp
  have X: "map_of X key =
      Some (concat (map (\<lambda>i. py_slice (ts ! i ! 0) (start_idx i - 1) (end_idx i - 1))
        [0..<length graphs]))"
    using cat_loop_Inr [OF cat d1] X1 by blast
  have y: "y = concat (map (\<lambda>i. py_slice (?toks i) (start_idx i) (end_idx i)) [0..<length graphs])"
    using npc y1 by (auto simp: np_concatenate_def split: if_splits)
  have rs: "py_slice (ts ! i ! 0) (start_idx i - 1) (end_idx i - 1) = ?rs i"
    if "i < length graphs" for i
    using marker [OF that] wf that by (intro py_slice_range) auto
  have ls: "py_slice (?toks i) (start_idx i) (end_idx i) = ?ls i"
    if "i < length graphs" for i
    using marker [OF that] wf that by (intro py_slice_shifted) auto
  have "map (\<lambda>i. py_slice (ts ! i ! 0) (start_idx i - 1) (end_idx i - 1)) [0..<length graphs] =
      map ?rs [0..<length graphs]"
    by (rule map_cong [OF refl]) (simp add: rs)
  with X have X': "map_of X key = Some (concat (map ?rs [0..<length graphs]))"
    by simp
  have "map (\<lambda>i. py_slice (?toks i) (start_idx i) (end_idx i)) [0..<length graphs] =
      map ?ls [0..<length graphs]"
    by (rule map_cong [OF refl]) (simp add: ls)
  with y have y': "y = concat (map ?ls [0..<length graphs])"
    by simp
  have "zip (concat (map ?rs [0..<length graphs])) (concat (map ?ls [0..<length graphs])) =
      concat (map2 zip (map ?rs [0..<length graphs]) (map ?ls [0..<length graphs]))"
    by (rule zip_concat) simp_all
  also have "\<dots> = concat (map (\<lambda>i. zip (?rs i) (?ls i)) [0..<length graphs])"
    by (simp add: zip_map_map comp_def zip_same_conv_map)
  also have "\<dots> = concat (map (\<lambda>i. map (\<lambda>p. (ts ! i ! 0 ! p, ?toks i ! (p + 1))) (?P i))
      [0..<length graphs])"
    by (simp add: zip_map_map zip_same_conv_map comp_def)
  finally have zipped: "zip (concat (map ?rs [0..<length graphs])) y =
      concat (map (\<lambda>i. map (\<lambda>p. (ts ! i ! 0 ! p, ?toks i ! (p + 1))) (?P i)) [0..<length graphs])"
    by (simp add: y')
  have "length (concat (map ?rs [0..<length graphs])) = length y"
    by (simp add: y' length_concat comp_def)
  with X' zipped marker show ?thesis by blast
qed

theorem calibration_rows_labels_aligned_witness:
  "calibration_dataset toy_env toy_dataset
     [(Ln_final_normalized, [[[[1], [3], [5], [8], [8]]], [[[1], [3], [6], [6], [6]]]])]
     [''|aab,,'', ''|ab,,,''] =
     Inr ([(Ln_final_normalized, [[3], [5], [3]])], [2, 3, 3]) \<and>
   (\<exists>rows. map_of [(Ln_final_normalized, [[3 :: real], [5], [3]])] Ln_final_normalized = Some rows \<and>
      length rows = length [2, 3, 3 :: int] \<and>
      zip rows [2, 3, 3 :: int] = [([3], 2), ([5], 3), ([3], 3)])"
proof -
  let ?acts = "[(Ln_final_normalized, [[[[1 :: real], [3], [5], [8], [8]]], [[[1], [3], [6], [6], [6]]]])]"
  let ?ts = "[[[[1 :: real], [3], [5], [8], [8]]], [[[1], [3], [6], [6], [6]]]]"
  let ?graphs = "[''|aab,,'', ''|ab,,,'']"
  let ?S = "\<lambda>i :: nat. 2 :: int"
  let ?E = "\<lambda>i :: nat. if i = 0 then 4 else 3 :: int"
  have run: "calibration_dataset toy_env toy_dataset ?acts ?graphs =
      Inr ([(Ln_final_normalized, [[3], [5], [3]])], [2, 3, 3])"
    by (rule toy_calibration_dataset)
  have key: "map_of ?acts Ln_final_normalized = Some ?ts"
    by simp
  have spans: "\<forall>i<length ?graphs. example_span toy_env toy_dataset (?graphs ! i) = Inr (?S i, ?E i)"
    by (simp add: All_less_Suc numeral_2_eq_2 example_span_def np_where_item_def py_index_def Let_def)
  have wf: "\<forall>i<length ?graphs. 1 \<le> ?E i \<and>
      ?E i \<le> int (length (butlast (tokenize toy_dataset (?graphs ! i)))) \<and>
      ?E i - 1 \<le> int (length (?ts ! i ! 0))"
    by (simp add: All_less_Suc numeral_2_eq_2)
  from calibration_rows_labels_aligned [OF run key spans wf]
  obtain rows where rows: "map_of [(Ln_final_normalized, [[3 :: real], [5], [3]])] Ln_final_normalized
      = Some rows"
    and len: "length rows = length [2, 3, 3 :: int]"
    and z: "zip rows [2, 3, 3 :: int] = concat (map (\<lambda>i.
           map (\<lambda>p. (?ts ! i ! 0 ! p, butlast (tokenize toy_dataset (?graphs ! i)) ! (p + 1)))
             [nat (?S i - 1)..<nat (?E i - 1)])
         [0..<length ?graphs])"
    by blast
  have "concat (map (\<lambda>i.
           map (\<lambda>p. (?ts ! i ! 0 ! p, butlast (tokenize toy_dataset (?graphs ! i)) ! (p + 1)))
             [nat (?S i - 1)..<nat (?E i - 1)])
         [0..<length ?graphs]) = [([3], 2), ([5], 3), ([3], 3)]"
    by (simp add: upt_rec)
  with run rows len z show ?thesis by simp
qed

section \<open>C7: one intercept-free probe per probe point, stored transposed\<close>

text \<open>
  C7. Whenever the calibrator returns, it has, for every probe point of the tuned
  lens, fitted the linear probe with \<^verbatim>\<open>fit_intercept=False\<close> on that probe
  point's training rows and the common labels, and the matrix it stores for the
  probe point is the transpose of the fitted weight matrix: entry \<open>(h, v)\<close> of the
  stored matrix is entry \<open>(v, h)\<close> of the weights, so a weight matrix with one
  row per token id and \<open>d\<close> columns is stored with \<open>d\<close> rows.
\<close>

theorem calculate_tuned_lens_translators:
  assumes run: "calculate_tuned_lens env m ds rng = Inr (translators, rng')"
  shows "\<exists>acts graphs X y.
      aggregate_activations env m ds (tuned_lens_keys m) 16384 None ''random'' rng =
        Inr (acts, graphs, rng') \<and>
      calibration_dataset env ds acts graphs = Inr (X, y) \<and>
      map fst X = tuned_lens_keys m \<and> map fst translators = tuned_lens_keys m \<and>
      (\<forall>key\<in>set (tuned_lens_keys m). \<exists>rows W.
         map_of X key = Some rows \<and>
         linear_cls_probe_fit env False rows y = Inr W \<and>
         map_of translators key = Some (transpose W) \<and>
         (\<forall>d. W \<noteq> [] \<and> (\<forall>v<length W. length (W ! v) = d) \<longrightarrow>
            length (transpose W) = d \<and>
            (\<forall>h<d. \<forall>v<length W. transpose W ! h ! v = W ! v ! h)))"
proof -
  from run obtain acts graphs X y where
    agg: "aggregate_activations env m ds (tuned_lens_keys m) 16384 None ''random'' rng =
        Inr (acts, graphs, rng')"
    and cal: "calibration_dataset env ds acts graphs = Inr (X, y)"
    and fit: "fit_translators env X y [] = Inr translators"
    by (auto simp: calculate_tuned_lens_def bind_eq_Inr_iff)
  from agg have "map fst acts = map fst (dict_from_keys (tuned_lens_keys m) ([] :: tensor3 list))"
    using sampling_loop_Inr [of env m ds "tuned_lens_keys m" None "''random''" 16384
        "dict_from_keys (tuned_lens_keys m) []" "[]" rng acts graphs rng']
    by (simp add: aggregate_activations_def)
  then have kacts: "map fst acts = tuned_lens_keys m"
    by (simp add: keys_dict_from_keys_distinct distinct_tuned_lens_keys)
  have kX: "map fst X = tuned_lens_keys m"
    using calibration_dataset_keys [OF cal] kacts distinct_tuned_lens_keys by simp
  have dX: "distinct (map fst [] @ map fst X)"
    using kX distinct_tuned_lens_keys by simp
  note f = fit_translators_Inr [OF fit dX]
  have ktr: "map fst translators = tuned_lens_keys m"
    using f kX by simp
  have each: "\<exists>rows W. map_of X key = Some rows \<and>
         linear_cls_probe_fit env False rows y = Inr W \<and>
         map_of translators key = Some (transpose W) \<and>
         (\<forall>d. W \<noteq> [] \<and> (\<forall>v<length W. length (W ! v) = d) \<longrightarrow>
            length (transpose W) = d \<and>
            (\<forall>h<d. \<forall>v<length W. transpose W ! h ! v = W ! v ! h))"
    if "key \<in> set (tuned_lens_keys m)" for key
  proof -
    from that kX have "key \<in> fst ` set X"
      by (metis list.set_map)
    then obtain rows where rows: "map_of X key = Some rows"
      by (metis map_of_eq_None_iff not_None_eq)
    with f obtain W where "linear_cls_probe_fit env False rows y = Inr W"
      "map_of translators key = Some (transpose W)"
      by blast
    with rows transpose_orientation [of W] show ?thesis by blast
  qed
  from agg cal kX ktr each show ?thesis by blast
qed

theorem calculate_tuned_lens_translators_witness:
  "calculate_tuned_lens toy_env toy_model toy_dataset 0 =
     Inr ([(Ln_final_normalized, [[0, 0, 3, 8]])], 16384) \<and>
   tuned_lens_keys toy_model = [Ln_final_normalized] \<and>
   calibration_dataset toy_env toy_dataset
     [(Ln_final_normalized, [[[[1], [3], [5], [8], [8]]], [[[1], [3], [6], [6], [6]]]])]
     [''|aab,,'', ''|ab,,,''] =
     Inr ([(Ln_final_normalized, [[3], [5], [3]])], [2, 3, 3]) \<and>
   linear_cls_probe_fit toy_env False [[3], [5], [3]] [2, 3, 3] = Inr [[0], [0], [3], [8]] \<and>
   transpose [[0], [0], [3], [8 :: real]] = [[0, 0, 3, 8]]"
proof -
  have run: "calculate_tuned_lens toy_env toy_model toy_dataset 0 =
      Inr ([(Ln_final_normalized, [[0, 0, 3, 8]])], 16384)"
    by (rule toy_calculate_tuned_lens)
  have keys: "tuned_lens_keys toy_model = [Ln_final_normalized]"
    by (simp add: tuned_lens_keys_def)
  from calculate_tuned_lens_translators [OF run] obtain acts graphs X y where
    agg: "aggregate_activations toy_env toy_model toy_dataset (tuned_lens_keys toy_model) 16384 None
        ''random'' 0 = Inr (acts, graphs, 16384)"
    and cal: "calibration_dataset toy_env toy_dataset acts graphs = Inr (X, y)"
    and each: "\<forall>key\<in>set (tuned_lens_keys toy_model). \<exists>rows W.
         map_of X key = Some rows \<and>
         linear_cls_probe_fit toy_env False rows y = Inr W \<and>
         map_of [(Ln_final_normalized, [[0, 0, 3, 8 :: real]])] key = Some (transpose W) \<and>
         (\<forall>d. W \<noteq> [] \<and> (\<forall>v<length W. length (W ! v) = d) \<longrightarrow>
            length (transpose W) = d \<and>
            (\<forall>h<d. \<forall>v<length W. transpose W ! h ! v = W ! v ! h))"
    by blast
  from agg have acts: "acts =
      [(Ln_final_normalized, [[[[1], [3], [5], [8], [8]]], [[[1], [3], [6], [6], [6]]]])]"
    and graphs: "graphs = [''|aab,,'', ''|ab,,,'']"
    by (simp_all add: toy_aggregate_16384)
  from cal have cal': "calibration_dataset toy_env toy_dataset
     [(Ln_final_normalized, [[[[1], [3], [5], [8], [8]]], [[[1], [3], [6], [6], [6]]]])]
     [''|aab,,'', ''|ab,,,''] = Inr (X, y)"
    by (simp add: acts graphs)
  then have X: "X = [(Ln_final_normalized, [[3], [5], [3]])]" and y: "y = [2, 3, 3]"
    by (simp_all add: toy_calibration_dataset)
  from each obtain W where
    fit: "linear_cls_probe_fit toy_env False [[3], [5], [3]] [2, 3, 3] = Inr W"
    and tr: "transpose W = [[0, 0, 3, 8]]"
    by (auto simp: keys X y simp del: toy_env_fields)
  from fit have "W = [[0], [0], [3], [8]]"
    by (simp add: upt_rec)
  with run keys cal' X y fit tr show ?thesis
    by (simp del: toy_env_fields)
qed

section \<open>C8: accepted instances and their activations\<close>

text \<open>
  C8 (as amended). Every instance the aggregator returns was judged correct by the
  oracle, whatever probe points are requested; and when the requested probe points
  are pairwise distinct, the list accumulated for each of them has one tensor per
  accepted instance, the \<open>i\<close>-th tensor being the \<open>i\<close>-th accepted
  instance's activation at that probe point.
\<close>

theorem aggregate_activations_accepted_parallel:
  assumes run: "aggregate_activations env m ds activation_keys n_samples path_length order rng =
      Inr (agg_cache, graphs, rng')"
  shows "(\<forall>g\<in>set graphs. is_model_correct env m ds g) \<and>
    (distinct activation_keys \<longrightarrow>
      (\<forall>key\<in>set activation_keys. \<exists>ts.
         map_of agg_cache key = Some ts \<and> length ts = length graphs \<and>
         (\<forall>i<length graphs.
            snd (get_example_cache env (graphs ! i) m ds) key = Some (ts ! i))))"
proof -
  let ?ok = "is_model_correct env m ds"
  let ?acc = "filter ?ok (attempts env ds path_length order n_samples rng)"
  let ?c = "\<lambda>g. snd (get_example_cache env g m ds)"
  from run have loop: "sampling_loop env m ds activation_keys path_length order n_samples
      (dict_from_keys activation_keys [], [], rng) = Inr (agg_cache, graphs, rng')"
    by (simp add: aggregate_activations_def)
  from sampling_loop_Inr [OF loop]
  have graphs: "graphs = ?acc"
    and present: "\<forall>g\<in>set ?acc. \<forall>k\<in>set activation_keys. ?c g k \<noteq> None"
    and vals: "\<And>k. map_of agg_cache k =
       map_option (\<lambda>acc. acc @ concat (map
           (\<lambda>g. replicate (count_list activation_keys k) (the (?c g k))) ?acc))
         (map_of (dict_from_keys activation_keys []) k)"
    by simp_all
  have correct: "\<forall>g\<in>set graphs. ?ok g"
    by (simp add: graphs)
  have parallel: "\<exists>ts. map_of agg_cache key = Some ts \<and> length ts = length graphs \<and>
       (\<forall>i<length graphs. ?c (graphs ! i) key = Some (ts ! i))"
    if dist: "distinct activation_keys" and key: "key \<in> set activation_keys" for key
  proof -
    have one: "count_list activation_keys key = 1"
      using dist key by (rule count_list_distinct)
    have "map_of agg_cache key = Some (map (\<lambda>g. the (?c g key)) graphs)"
      using key by (simp add: vals map_of_dict_from_keys one graphs concat_map_singleton)
    moreover have "?c (graphs ! i) key = Some (the (?c (graphs ! i) key))" if "i < length graphs" for i
      using present key that graphs by (metis nth_mem option.collapse)
    ultimately show ?thesis by simp
  qed
  from correct parallel show ?thesis by blast
qed

theorem aggregate_activations_accepted_parallel_witness:
  "is_model_correct toy_env toy_model toy_dataset ''|aab,,'' \<and>
   is_model_correct toy_env toy_model toy_dataset ''|ab,,,'' \<and>
   aggregate_activations toy_env toy_model toy_dataset [Ln_final_normalized] 3 None ''backward'' 0 =
     Inr ([(Ln_final_normalized, [[[[1], [3], [5], [8], [8]]], [[[1], [3], [6], [6], [6]]]])],
          [''|aab,,'', ''|ab,,,''], 3) \<and>
   snd (get_example_cache toy_env ''|aab,,'' toy_model toy_dataset) Ln_final_normalized =
     Some [[[1], [3], [5], [8], [8]]] \<and>
   snd (get_example_cache toy_env ''|ab,,,'' toy_model toy_dataset) Ln_final_normalized =
     Some [[[1], [3], [6], [6], [6]]]"
proof -
  have run: "aggregate_activations toy_env toy_model toy_dataset [Ln_final_normalized] 3 None
      ''backward'' 0 =
     Inr ([(Ln_final_normalized, [[[[1], [3], [5], [8], [8]]], [[[1], [3], [6], [6], [6]]]])],
          [''|aab,,'', ''|ab,,,''], 3)"
    by (rule toy_aggregate_3)
  have dist: "distinct [Ln_final_normalized]"
    by simp
  from aggregate_activations_accepted_parallel [OF run] dist
  have ok: "\<forall>g\<in>set [''|aab,,'', ''|ab,,,'']. is_model_correct toy_env toy_model toy_dataset g"
    and par: "\<forall>key\<in>set [Ln_final_normalized]. \<exists>ts.
       map_of [(Ln_final_normalized, [[[[1], [3], [5], [8], [8]]], [[[1], [3], [6], [6], [6]]]])] key
         = Some ts \<and>
       length ts = length [''|aab,,'', ''|ab,,,''] \<and>
       (\<forall>i<length [''|aab,,'', ''|ab,,,''].
          snd (get_example_cache toy_env ([''|aab,,'', ''|ab,,,''] ! i) toy_model toy_dataset) key
            = Some (ts ! i))"
    by blast+
  from par have
    "snd (get_example_cache toy_env ''|aab,,'' toy_model toy_dataset) Ln_final_normalized =
       Some [[[1], [3], [5], [8], [8]]]"
    "snd (get_example_cache toy_env ''|ab,,,'' toy_model toy_dataset) Ln_final_normalized =
       Some [[[1], [3], [6], [6], [6]]]"
    by (simp_all add: All_less_Suc numeral_2_eq_2 del: toy_env_fields)
  with ok run show ?thesis by simp
qed

text \<open>
  The claim without the distinctness condition fails: a probe point requested twice
  accumulates two tensors for the one accepted instance.
\<close>

theorem aggregate_activations_duplicate_keys_counterexample:
  "aggregate_activations toy_env toy_model toy_dataset
      [Ln_final_normalized, Ln_final_normalized] 1 None ''backward'' 0 =
     Inr ([(Ln_final_normalized, [[[[1], [3], [5], [8], [8]]], [[[1], [3], [5], [8], [8]]]])],
          [''|aab,,''], 1) \<and>
   length [[[[1::real], [3], [5], [8], [8]]], [[[1], [3], [5], [8], [8]]]] \<noteq> length [''|aab,,'']"
  by (simp add: aggregate_activations_def dict_from_keys_def run_blocks_def Let_def)

section \<open>C9: attempts, not accepted examples\<close>

text \<open>
  C9. The loop draws exactly \<open>n_samples\<close> seeds and generates exactly
  \<open>n_samples\<close> instances; it returns those of them the oracle accepts, in order,
  so at most \<open>n_samples\<close>; rejected instances are skipped and still use up their
  draw. (The run returns whenever every accepted instance's cache has the requested
  keys.)
\<close>

theorem aggregate_activations_attempts:
  assumes present: "\<forall>g\<in>set (attempts env ds path_length order n_samples rng).
      is_model_correct env m ds g \<longrightarrow>
      (\<forall>key\<in>set activation_keys. snd (get_example_cache env g m ds) key \<noteq> None)"
  shows "length (attempts env ds path_length order n_samples rng) = n_samples \<and>
    (\<exists>agg_cache.
       aggregate_activations env m ds activation_keys n_samples path_length order rng =
         Inr (agg_cache,
              filter (is_model_correct env m ds) (attempts env ds path_length order n_samples rng),
              snd (draw_seeds (np_random_randint env 1000000 np_iinfo_max) n_samples rng))) \<and>
    length (filter (is_model_correct env m ds) (attempts env ds path_length order n_samples rng))
      \<le> n_samples"
proof -
  have "set activation_keys \<subseteq> fst ` set (dict_from_keys activation_keys ([] :: tensor3 list))"
    by (simp add: keys_dict_from_keys)
  from sampling_loop_ok [OF this present, of "[]"]
  have "\<exists>agg_cache.
       aggregate_activations env m ds activation_keys n_samples path_length order rng =
         Inr (agg_cache,
              filter (is_model_correct env m ds) (attempts env ds path_length order n_samples rng),
              snd (draw_seeds (np_random_randint env 1000000 np_iinfo_max) n_samples rng))"
    by (simp add: aggregate_activations_def)
  moreover have "length (filter (is_model_correct env m ds)
      (attempts env ds path_length order n_samples rng)) \<le> n_samples"
    using length_filter_le [of "is_model_correct env m ds"
        "attempts env ds path_length order n_samples rng"] by simp
  ultimately show ?thesis by simp
qed

theorem aggregate_activations_attempts_witness:
  "attempts toy_env toy_dataset None ''backward'' 3 0 = [''|aab,,'', ''|b,,,,'', ''|ab,,,''] \<and>
   (\<exists>agg_cache.
      aggregate_activations toy_env toy_model toy_dataset [Ln_final_normalized] 3 None ''backward'' 0 =
        Inr (agg_cache, [''|aab,,'', ''|ab,,,''], 3)) \<and>
   length [''|aab,,'', ''|ab,,,''] \<le> (3::nat)"
proof -
  have present: "\<forall>g\<in>set (attempts toy_env toy_dataset None ''backward'' 3 0).
      is_model_correct toy_env toy_model toy_dataset g \<longrightarrow>
      (\<forall>key\<in>set [Ln_final_normalized].
         snd (get_example_cache toy_env g toy_model toy_dataset) key \<noteq> None)"
    by (simp add: Let_def)
  have seeds: "snd (draw_seeds (np_random_randint toy_env 1000000 np_iinfo_max) 3 0) = 3"
    by (simp add: numeral_3_eq_3)
  from aggregate_activations_attempts [OF present] show ?thesis
    by (simp add: toy_attempts_3 seeds)
qed

section \<open>C10: no accepted example, no lens\<close>

text \<open>
  C10. If the oracle rejects every one of the 16384 instances sampled for the
  calibration, the calibration raises (the concatenation of an empty list of
  tensors fails) instead of returning lens matrices.
\<close>

theorem calculate_tuned_lens_needs_accepted_example:
  assumes none: "filter (is_model_correct env m ds) (attempts env ds None ''random'' 16384 rng) = []"
  shows "calculate_tuned_lens env m ds rng = Inl RuntimeError"
proof -
  let ?acts = "dict_from_keys (tuned_lens_keys m) ([] :: tensor3 list)"
  let ?X = "dict_from_keys (map fst ?acts) ([] :: real list list list)"
  have agg: "aggregate_activations env m ds (tuned_lens_keys m) 16384 None ''random'' rng =
      Inr (?acts, [], snd (draw_seeds (np_random_randint env 1000000 np_iinfo_max) 16384 rng))"
    using sampling_loop_none [OF none] by (simp add: aggregate_activations_def)
  have "map fst ?X = tuned_lens_keys m"
    by (simp add: keys_dict_from_keys_distinct distinct_tuned_lens_keys)
  then obtain key v X' where X: "?X = (key, v) # X'"
    using tuned_lens_keys_nonempty [of m] by (cases ?X) auto
  have "map_of ?X key = Some v"
    by (simp add: X)
  then have "v = []"
    by (simp add: map_of_dict_from_keys split: if_splits)
  then have "cat_loop ?X = Inl RuntimeError"
    by (simp only: X cat_loop_empty_entry)
  then have "calibration_dataset env ds ?acts [] = Inl RuntimeError"
    by (simp add: calibration_dataset_def)
  with agg show ?thesis
    by (simp add: calculate_tuned_lens_def)
qed

theorem calculate_tuned_lens_needs_accepted_example_witness:
  "calculate_tuned_lens (toy_env\<lparr>is_model_correct := \<lambda>m ds g. False\<rparr>) toy_model toy_dataset 0 =
     Inl RuntimeError"
  by (rule calculate_tuned_lens_needs_accepted_example) simp

end
